theory Spec2Isabelle
  imports Main "HOL-Library.Word"
begin

section \<open>The execution engine of \<^verbatim>\<open>emulator.cpp\<close>\<close>

subsection \<open>Opcodes and syscall numbers\<close>

type_synonym byte = "8 word"

text \<open>\<^verbatim>\<open>enum OpCode : uint8_t\<close>.\<close>

abbreviation (input) PUSH_B :: byte where "PUSH_B \<equiv> 0x01"
abbreviation (input) POP_B :: byte where "POP_B \<equiv> 0x02"
abbreviation (input) LOAD_A :: byte where "LOAD_A \<equiv> 0x03"
abbreviation (input) LOAD_B :: byte where "LOAD_B \<equiv> 0x04"
abbreviation (input) STORE_A :: byte where "STORE_A \<equiv> 0x05"
abbreviation (input) ADD_A_B :: byte where "ADD_A_B \<equiv> 0x10"
abbreviation (input) SUB_A_B :: byte where "SUB_A_B \<equiv> 0x11"
abbreviation (input) JMP :: byte where "JMP \<equiv> 0x20"
abbreviation (input) HALT :: byte where "HALT \<equiv> 0xFF"
abbreviation (input) SYSCALL :: byte where "SYSCALL \<equiv> 0x30"

text \<open>\<^verbatim>\<open>enum class SyscallNumber : uint8_t\<close>.\<close>

abbreviation (input) PRINT_CHAR :: byte where "PRINT_CHAR \<equiv> 1"
abbreviation (input) READ_CHAR :: byte where "READ_CHAR \<equiv> 2"

abbreviation (input) USER_PROGRAM_START_ADDRESS :: "16 word" where
  "USER_PROGRAM_START_ADDRESS \<equiv> 0x0000"

subsection \<open>Console streams\<close>

text \<open>
  What the engine writes to \<^verbatim>\<open>cerr\<close>: one constructor for each message, carrying the
  value the message prints.
\<close>

datatype diagnostic =
    Program_too_large "16 word"
  | Unknown_syscall byte
  | PC_out_of_bounds
  | Unknown_instruction byte

text \<open>
  What the engine writes to \<^verbatim>\<open>cout\<close>. \<open>Trace_PC\<close> is the prefix \<^verbatim>\<open>[PC: 0x..]\<close> that
  \<^verbatim>\<open>step\<close> prints after the fetch; its argument is the \<^verbatim>\<open>int\<close> expression \<^verbatim>\<open>pc - 1\<close>.
  \<open>Print_char\<close> is the output of the PRINT_CHAR syscall.
\<close>

datatype out =
    Trace_PC int
  | Trace_LOAD_A byte
  | Trace_LOAD_B byte
  | Trace_STORE_A "16 word"
  | Trace_ADD_A_B byte
  | Trace_SUB_A_B byte
  | Trace_PUSH_B
  | Trace_POP_B
  | Trace_JMP "16 word"
  | Trace_SYSCALL
  | Trace_HALT
  | Print_char byte

subsection \<open>Machine state\<close>

text \<open>
  The fields of \<^verbatim>\<open>class CPU\<close>, followed by the three standard streams of the process,
  which the member functions read and write: \<open>cin\<close> is the input that is still unread.
  The last field belongs to the READ_CHAR syscall, whose local \<^verbatim>\<open>char inputChar\<close> has no
  initialiser: \<open>stale_char\<close> says what reading it yields after an extraction that stored
  nothing, \<open>None\<close> where that read is taken as undefined, \<open>Some b\<close> where it goes through
  and yields the byte \<open>b\<close> that the stack slot happens to hold.
\<close>

record CPU =
  reg_A :: byte
  reg_B :: byte
  pc :: "16 word"
  sp :: "16 word"
  privileged :: bool
  memory :: "byte list"
  stack :: "byte list"
  cin :: "byte list"
  cout :: "out list"
  cerr :: "diagnostic list"
  stale_char :: "byte option"

text \<open>
  The constructor \<^verbatim>\<open>CPU()\<close> with the default member initialisers; the argument is the
  input waiting on \<^verbatim>\<open>cin\<close>. The read of an uninitialised \<^verbatim>\<open>inputChar\<close> starts out as
  undefined; a property that depends on it is stated for both settings of \<open>stale_char\<close>.
\<close>

definition CPU_init :: "byte list \<Rightarrow> CPU" where
  "CPU_init inp =
     \<lparr>reg_A = 0, reg_B = 0, pc = 0, sp = 0, privileged = False,
      memory = replicate 65536 0, stack = replicate 256 0,
      cin = inp, cout = [], cerr = [], stale_char = None\<rparr>"

text \<open>
  The sizes the constructor gives the two vectors. No member function resizes them.
\<close>

definition sized :: "CPU \<Rightarrow> bool" where
  "sized c = (length (memory c) = 65536 \<and> length (stack c) = 256)"

subsection \<open>\<^verbatim>\<open>CPU::loadProgram\<close>\<close>

text \<open>
  The comparison \<^verbatim>\<open>startAddress + program.size() > memory.size()\<close> is made in \<^verbatim>\<open>size_t\<close>;
  a vector's size is below \<open>2 ^ 63\<close>, so the sum does not wrap and \<open>nat\<close> arithmetic is exact.
  \<^verbatim>\<open>std::copy\<close> overwrites the cells from \<^verbatim>\<open>startAddress\<close> on, one for each byte.
\<close>

definition loadProgram :: "byte list \<Rightarrow> 16 word \<Rightarrow> CPU \<Rightarrow> CPU" where
  "loadProgram program startAddress c =
     (if unat startAddress + length program > length (memory c)
      then c\<lparr>cerr := cerr c @ [Program_too_large startAddress]\<rparr>
      else c\<lparr>memory := take (unat startAddress) (memory c) @ program
                         @ drop (unat startAddress + length program) (memory c)\<rparr>)"

subsection \<open>\<^verbatim>\<open>CPU::syscallHandler\<close>\<close>

text \<open>\<^verbatim>\<open>isspace\<close> in the C locale: the characters \<^verbatim>\<open>operator>>\<close> skips.\<close>

definition isspace_byte :: "byte \<Rightarrow> bool" where
  "isspace_byte b = (b = 0x20 \<or> b = 0x09 \<or> b = 0x0A \<or> b = 0x0B \<or> b = 0x0C \<or> b = 0x0D)"

text \<open>
  The \<^verbatim>\<open>switch\<close> of the handler, between the two assignments to \<^verbatim>\<open>privileged\<close>.
  \<^verbatim>\<open>cin >> inputChar\<close> skips white space and takes one character. When the input has no
  such character, the white space is consumed, the extraction fails and stores nothing, and
  \<^verbatim>\<open>reg_B = static_cast<uint8_t>(inputChar)\<close> reads the uninitialised local: the handler
  goes on with \<open>B\<close> set to the stale byte when \<open>stale_char\<close> gives one, and the result is
  \<open>None\<close> when it gives none.
\<close>

definition syscall_switch :: "CPU \<Rightarrow> CPU option" where
  "syscall_switch c =
     (if reg_A c = PRINT_CHAR then Some (c\<lparr>cout := cout c @ [Print_char (reg_B c)]\<rparr>)
      else if reg_A c = READ_CHAR then
        (case dropWhile isspace_byte (cin c) of
           [] \<Rightarrow>
             (case stale_char c of
                None \<Rightarrow> None
              | Some inputChar \<Rightarrow> Some (c\<lparr>reg_B := inputChar, cin := []\<rparr>))
         | inputChar # rest \<Rightarrow> Some (c\<lparr>reg_B := inputChar, cin := rest\<rparr>))
      else Some (c\<lparr>cerr := cerr c @ [Unknown_syscall (reg_A c)]\<rparr>))"

text \<open>
  The handler, statement by statement: the states after \<^verbatim>\<open>privileged = true\<close>, after the
  \<^verbatim>\<open>switch\<close> and after \<^verbatim>\<open>privileged = false\<close>, in this order. The state the handler leaves
  the machine in is the last of them.
\<close>

definition syscallHandler_states :: "CPU \<Rightarrow> CPU list option" where
  "syscallHandler_states c =
     (let entered = c\<lparr>privileged := True\<rparr>
      in case syscall_switch entered of
           None \<Rightarrow> None
         | Some served \<Rightarrow> Some [entered, served, served\<lparr>privileged := False\<rparr>])"

definition syscallHandler :: "CPU \<Rightarrow> CPU option" where
  "syscallHandler c =
     (case syscallHandler_states c of
        None \<Rightarrow> None
      | Some states \<Rightarrow> Some (last states))"

subsection \<open>\<^verbatim>\<open>CPU::step\<close>\<close>

text \<open>
  \<^verbatim>\<open>memory[pc++]\<close>, the operand fetch. \<^verbatim>\<open>pc\<close> is a \<^verbatim>\<open>uint16_t\<close>, so the increment wraps.
  An index beyond the vector is undefined in C++: the result \<open>None\<close>.
\<close>

definition fetch :: "CPU \<Rightarrow> (byte \<times> CPU) option" where
  "fetch c =
     (if unat (pc c) < length (memory c)
      then Some (memory c ! unat (pc c), c\<lparr>pc := pc c + 1\<rparr>)
      else None)"

text \<open>
  The \<^verbatim>\<open>switch (instruction)\<close> of \<^verbatim>\<open>step\<close>, with the value the function then returns.
  \<^verbatim>\<open>reg_A + reg_B\<close> and \<^verbatim>\<open>reg_A - reg_B\<close> are computed in \<^verbatim>\<open>int\<close> and converted back to
  \<^verbatim>\<open>uint8_t\<close> by the assignment.
\<close>

definition exec :: "byte \<Rightarrow> CPU \<Rightarrow> (bool \<times> CPU) option" where
  "exec instruction c =
     (if instruction = LOAD_A then
        (case fetch c of
           None \<Rightarrow> None
         | Some (val, c') \<Rightarrow>
             Some (True, c'\<lparr>reg_A := val, cout := cout c' @ [Trace_LOAD_A val]\<rparr>))
      else if instruction = LOAD_B then
        (case fetch c of
           None \<Rightarrow> None
         | Some (val, c') \<Rightarrow>
             Some (True, c'\<lparr>reg_B := val, cout := cout c' @ [Trace_LOAD_B val]\<rparr>))
      else if instruction = STORE_A then
        (case fetch c of
           None \<Rightarrow> None
         | Some (val, c') \<Rightarrow>
             (let address = (ucast val :: 16 word) in
              if unat address < length (memory c')
              then Some (True, c'\<lparr>memory := (memory c')[unat address := reg_A c'],
                                  cout := cout c' @ [Trace_STORE_A address]\<rparr>)
              else None))
      else if instruction = ADD_A_B then
        (let a = (word_of_int (uint (reg_A c) + uint (reg_B c)) :: byte) in
         Some (True, c\<lparr>reg_A := a, cout := cout c @ [Trace_ADD_A_B a]\<rparr>))
      else if instruction = SUB_A_B then
        (let a = (word_of_int (uint (reg_A c) - uint (reg_B c)) :: byte) in
         Some (True, c\<lparr>reg_A := a, cout := cout c @ [Trace_SUB_A_B a]\<rparr>))
      else if instruction = PUSH_B then
        (if unat (sp c) < length (stack c)
         then Some (True, c\<lparr>stack := (stack c)[unat (sp c) := reg_B c], sp := sp c + 1,
                            cout := cout c @ [Trace_PUSH_B]\<rparr>)
         else Some (True, c))
      else if instruction = POP_B then
        (if sp c > 0
         then (if unat (sp c - 1) < length (stack c)
               then Some (True, c\<lparr>sp := sp c - 1, reg_B := stack c ! unat (sp c - 1),
                                  cout := cout c @ [Trace_POP_B]\<rparr>)
               else None)
         else Some (True, c))
      else if instruction = JMP then
        (case fetch c of
           None \<Rightarrow> None
         | Some (val, c') \<Rightarrow>
             (let address = (ucast val :: 16 word) in
              Some (True, c'\<lparr>pc := address, cout := cout c' @ [Trace_JMP address]\<rparr>)))
      else if instruction = SYSCALL then
        (case syscallHandler (c\<lparr>cout := cout c @ [Trace_SYSCALL]\<rparr>) of
           None \<Rightarrow> None
         | Some c' \<Rightarrow> Some (True, c'))
      else if instruction = HALT then
        Some (False, c\<lparr>cout := cout c @ [Trace_HALT]\<rparr>)
      else
        Some (False, c\<lparr>cerr := cerr c @ [Unknown_instruction instruction]\<rparr>))"

text \<open>
  \<^verbatim>\<open>step\<close>: the bounds check on \<^verbatim>\<open>pc\<close>, the opcode fetch, the increment of \<^verbatim>\<open>pc\<close>, the
  trace prefix, then the switch. The Boolean is the value \<^verbatim>\<open>step\<close> returns.
\<close>

definition step :: "CPU \<Rightarrow> (bool \<times> CPU) option" where
  "step c =
     (if unat (pc c) \<ge> length (memory c)
      then Some (False, c\<lparr>cerr := cerr c @ [PC_out_of_bounds]\<rparr>)
      else
        (let instruction = memory c ! unat (pc c);
             c1 = c\<lparr>pc := pc c + 1\<rparr>;
             c2 = c1\<lparr>cout := cout c1 @ [Trace_PC (uint (pc c1) - 1)]\<rparr>
         in exec instruction c2))"

text \<open>
  The loop \<^verbatim>\<open>while (cpu.step()) {}\<close> of the \<^verbatim>\<open>run\<close> command. It need not end (a \<^verbatim>\<open>JMP\<close>
  to itself); \<open>None\<close> is a run that never returns or that meets undefined behaviour.
\<close>

partial_function (option) run :: "CPU \<Rightarrow> CPU option" where
  "run c =
     (case step c of
        None \<Rightarrow> None
      | Some r \<Rightarrow> if fst r then run (snd r) else Some (snd r))"

text \<open>
  What the commands \<^verbatim>\<open>load\<close>, \<^verbatim>\<open>asm\<close> and \<^verbatim>\<open>compile\<close> of \<^verbatim>\<open>main\<close> do with a non-empty
  program: \<^verbatim>\<open>cpu.loadProgram(program, USER_PROGRAM_START_ADDRESS); cpu.pc = USER_PROGRAM_START_ADDRESS;\<close>
\<close>

definition load_and_reset :: "byte list \<Rightarrow> CPU \<Rightarrow> CPU" where
  "load_and_reset program c =
     (loadProgram program USER_PROGRAM_START_ADDRESS c)\<lparr>pc := USER_PROGRAM_START_ADDRESS\<rparr>"

section \<open>Text input shared by the two translators\<close>

text \<open>\<^verbatim>\<open>isspace\<close> on characters: a token of \<^verbatim>\<open>operator>>\<close> ends at one of these.\<close>

definition isspace :: "char \<Rightarrow> bool" where
  "isspace ch = (ch \<in> set [CHR '' '', CHR 0x09, CHR 0x0A, CHR 0x0B, CHR 0x0C, CHR 0x0D])"

text \<open>
  The tokens of a line, in order: the maximal runs of characters that are not white space.
  The second argument is the token being read.
\<close>

fun split_ws :: "string \<Rightarrow> string \<Rightarrow> string list" where
  "split_ws [] cur = (if cur = [] then [] else [cur])"
| "split_ws (ch # s) cur =
     (if isspace ch then (if cur = [] then split_ws s [] else cur # split_ws s [])
      else split_ws s (cur @ [ch]))"

definition tokens :: "string \<Rightarrow> string list" where
  "tokens l = split_ws l []"

text \<open>
  A \<^verbatim>\<open>stringstream\<close> over a line is the list of its tokens not yet extracted.
  \<^verbatim>\<open>ss >> var\<close> takes the next token; when there is none the extraction fails and \<^verbatim>\<open>var\<close>
  keeps the value it had (the empty string for a fresh variable).
\<close>

definition next_token :: "string \<Rightarrow> string list \<Rightarrow> string \<times> string list" where
  "next_token var ss = (case ss of [] \<Rightarrow> (var, []) | t # rest \<Rightarrow> (t, rest))"

subsection \<open>\<^verbatim>\<open>std::stoi\<close> in base 10\<close>

definition isdigit :: "char \<Rightarrow> bool" where
  "isdigit ch = (ch \<in> set ''0123456789'')"

definition digit_val :: "char \<Rightarrow> int" where
  "digit_val ch = of_char ch - 48"

definition decimal :: "string \<Rightarrow> int" where
  "decimal ds = foldl (\<lambda>acc d. 10 * acc + digit_val d) 0 ds"

text \<open>
  \<^verbatim>\<open>stoi\<close> skips leading white space, takes an optional sign and then the longest run of
  digits; what follows the digits is ignored. It throws \<^verbatim>\<open>invalid_argument\<close> when there is no
  digit and \<^verbatim>\<open>out_of_range\<close> when the value is not an \<^verbatim>\<open>int\<close>. Every caller catches both
  with \<^verbatim>\<open>catch (...)\<close>, so both are \<open>None\<close> here.
\<close>

definition stoi :: "string \<Rightarrow> int option" where
  "stoi str =
     (let s = dropWhile isspace str;
          negative = (s \<noteq> [] \<and> hd s = CHR ''-'');
          s' = (if s \<noteq> [] \<and> (hd s = CHR ''-'' \<or> hd s = CHR ''+'') then tl s else s);
          ds = takeWhile isdigit s';
          v = (if negative then - decimal ds else decimal ds)
      in if ds = [] then None
         else if v < - (2 ^ 31) \<or> v > 2 ^ 31 - 1 then None
         else Some v)"

text \<open>The diagnostics of the translators; each is followed by \<^verbatim>\<open>return {}\<close>.\<close>

datatype translation_error =
    Invalid_operand string
  | Already_declared string
  | Expected_equals
  | Undefined_variable string
  | Unknown_operator string

section \<open>The assembler\<close>

text \<open>\<^verbatim>\<open>opcodeMap\<close>.\<close>

definition opcodeMap :: "string \<Rightarrow> byte option" where
  "opcodeMap = map_of
     [(''PUSH_B'', PUSH_B), (''POP_B'', POP_B), (''LOAD_A'', LOAD_A), (''LOAD_B'', LOAD_B),
      (''STORE_A'', STORE_A), (''ADD_A_B'', ADD_A_B), (''SUB_A_B'', SUB_A_B), (''JMP'', JMP),
      (''HALT'', HALT), (''SYSCALL'', SYSCALL)]"

text \<open>The test both passes make for a mnemonic that is followed by an operand.\<close>

definition has_operand :: "string \<Rightarrow> bool" where
  "has_operand token =
     (token = ''LOAD_A'' \<or> token = ''LOAD_B'' \<or> token = ''JMP'' \<or> token = ''STORE_A'')"

text \<open>
  The body of the first loop of \<^verbatim>\<open>assemble\<close>, on the pair of \<^verbatim>\<open>labels\<close> and \<^verbatim>\<open>address\<close>
  (a \<^verbatim>\<open>uint16_t\<close>).
\<close>

definition pass1_line ::
  "(string \<rightharpoonup> 16 word) \<times> 16 word \<Rightarrow> string \<Rightarrow> (string \<rightharpoonup> 16 word) \<times> 16 word" where
  "pass1_line st l =
     (let labels = fst st; address = snd st;
          (token, ss) = next_token [] (tokens l)
      in if token = [] \<or> hd token = CHR '';'' then (labels, address)
         else
           (let (labels', token', ss') =
                  (if last token = CHR '':''
                   then (let (t, r) = next_token token ss
                         in (labels(butlast token \<mapsto> address), t, r))
                   else (labels, token, ss))
            in if opcodeMap token' \<noteq> None
               then (labels', if has_operand token' then address + 1 + 1 else address + 1)
               else (labels', address)))"

definition pass1 :: "string list \<Rightarrow> (string \<rightharpoonup> 16 word) \<times> 16 word" where
  "pass1 lines = foldl pass1_line (Map.empty, USER_PROGRAM_START_ADDRESS) lines"

text \<open>
  The body of the second loop: the bytes the line appends to \<^verbatim>\<open>bytecode\<close>, or the
  diagnostic before \<^verbatim>\<open>return {}\<close>. The two casts to \<^verbatim>\<open>uint8_t\<close> keep the low byte.
\<close>

definition pass2_line :: "(string \<rightharpoonup> 16 word) \<Rightarrow> string \<Rightarrow> translation_error + byte list" where
  "pass2_line labels l =
     (let (token, ss) = next_token [] (tokens l)
      in if token = [] \<or> hd token = CHR '';'' then Inr []
         else
           (let (token', ss') = (if last token = CHR '':'' then next_token token ss else (token, ss))
            in case opcodeMap token' of
                 None \<Rightarrow> Inr []
               | Some opc \<Rightarrow>
                   if has_operand token' then
                     (let operand = fst (next_token [] ss')
                      in case labels operand of
                           Some a \<Rightarrow> Inr [opc, ucast a]
                         | None \<Rightarrow>
                             (case stoi operand of
                                Some v \<Rightarrow> Inr [opc, word_of_int v]
                              | None \<Rightarrow> Inl (Invalid_operand operand)))
                   else Inr [opc]))"

fun pass2 ::
  "(string \<rightharpoonup> 16 word) \<Rightarrow> string list \<Rightarrow> byte list \<Rightarrow> translation_error + byte list" where
  "pass2 labels [] bytecode = Inr bytecode"
| "pass2 labels (l # ls) bytecode =
     (case pass2_line labels l of
        Inl e \<Rightarrow> Inl e
      | Inr bs \<Rightarrow> pass2 labels ls (bytecode @ bs))"

text \<open>
  \<^verbatim>\<open>assemble\<close> on the lines of the file (opening and reading it are left to the caller):
  first the result with its diagnostic, then the vector the function returns.
\<close>

definition assemble_result :: "string list \<Rightarrow> translation_error + byte list" where
  "assemble_result lines = pass2 (fst (pass1 lines)) lines []"

definition assemble :: "string list \<Rightarrow> byte list" where
  "assemble lines = (case assemble_result lines of Inl e \<Rightarrow> [] | Inr bytecode \<Rightarrow> bytecode)"



section \<open>The Micro-C compiler\<close>

text \<open>The result of a translation that can also meet undefined behaviour.\<close>

datatype 'a outcome = Undefined | Failed translation_error | Ok 'a

text \<open>
  \<^verbatim>\<open>std::string::back()\<close>. On an empty string it is undefined behaviour. The parameter
  \<open>empty_back\<close> says what the library does there: \<open>None\<close> when the call traps (a hardened
  library), \<open>Some ch\<close> when the unchecked read yields the character \<open>ch\<close>.
  \<^verbatim>\<open>pop_back()\<close> on an empty string is undefined as well.
\<close>

definition string_back :: "char option \<Rightarrow> string \<Rightarrow> char option" where
  "string_back empty_back s = (if s = [] then empty_back else Some (last s))"

definition pop_back :: "string \<Rightarrow> string option" where
  "pop_back s = (if s = [] then None else Some (butlast s))"

text \<open>The statement \<^verbatim>\<open>if (s.back() == ';') s.pop_back();\<close>\<close>

definition strip_semicolon :: "char option \<Rightarrow> string \<Rightarrow> string option" where
  "strip_semicolon empty_back s =
     (case string_back empty_back s of
        None \<Rightarrow> None
      | Some ch \<Rightarrow> if ch = CHR '';'' then pop_back s else Some s)"

text \<open>The three local variables of \<^verbatim>\<open>compile\<close> that live across lines.\<close>

record compiler =
  assemblyOutput :: "byte list"
  variables :: "string \<rightharpoonup> byte"
  next_var_addr :: byte

text \<open>
  The code that loads one operand, written three times in \<^verbatim>\<open>compile\<close> (with \<^verbatim>\<open>LOAD_A\<close>
  twice and \<^verbatim>\<open>LOAD_B\<close> once): a declared variable gives its address as the operand byte,
  anything else goes through \<^verbatim>\<open>stoi\<close>.
\<close>

definition load_operand ::
  "byte \<Rightarrow> (string \<rightharpoonup> byte) \<Rightarrow> string \<Rightarrow> translation_error + byte list" where
  "load_operand opc vars v =
     (case vars v of
        Some a \<Rightarrow> Inr [opc, a]
      | None \<Rightarrow>
          (case stoi v of
             Some n \<Rightarrow> Inr [opc, word_of_int n]
           | None \<Rightarrow> Inl (Invalid_operand v)))"

text \<open>The body of the \<^verbatim>\<open>while (getline(file, line))\<close> loop.\<close>

definition compile_line :: "char option \<Rightarrow> compiler \<Rightarrow> string \<Rightarrow> compiler outcome" where
  "compile_line empty_back st line =
     (let (token, ss) = next_token [] (tokens line)
      in if token = [] \<or> (length token \<ge> 2 \<and> token ! 0 = CHR ''/'' \<and> token ! 1 = CHR ''/'')
         then Ok st
         else if token = ''int'' then
           (let (varName0, ss1) = next_token [] ss
            in case strip_semicolon empty_back varName0 of
                 None \<Rightarrow> Undefined
               | Some varName \<Rightarrow>
                   if variables st varName \<noteq> None then Failed (Already_declared varName)
                   else Ok (st\<lparr>variables := (variables st)(varName \<mapsto> next_var_addr st),
                               next_var_addr := next_var_addr st + 1\<rparr>))
         else
           (let varName = token;
                (equals, ss1) = next_token [] ss;
                (val1, ss2) = next_token [] ss1
            in if equals \<noteq> ''='' then Failed Expected_equals
               else case variables st varName of
                 None \<Rightarrow> Failed (Undefined_variable varName)
               | Some addr \<Rightarrow>
                   (let (op, ss3) = next_token [] ss2
                    in if op = [] \<or> last op = CHR '';'' then
                         (case strip_semicolon empty_back op of
                            None \<Rightarrow> Undefined
                          | Some op' \<Rightarrow>
                              (case load_operand LOAD_A (variables st) val1 of
                                 Inl e \<Rightarrow> Failed e
                               | Inr bs \<Rightarrow>
                                   Ok (st\<lparr>assemblyOutput :=
                                             assemblyOutput st @ bs @ [STORE_A, addr]\<rparr>)))
                       else
                         (let (val2_str0, ss4) = next_token [] ss3
                          in case strip_semicolon empty_back val2_str0 of
                               None \<Rightarrow> Undefined
                             | Some val2_str \<Rightarrow>
                                 (case load_operand LOAD_A (variables st) val1 of
                                    Inl e \<Rightarrow> Failed e
                                  | Inr bs1 \<Rightarrow>
                                      (case load_operand LOAD_B (variables st) val2_str of
                                         Inl e \<Rightarrow> Failed e
                                       | Inr bs2 \<Rightarrow>
                                           if op = ''+'' then
                                             Ok (st\<lparr>assemblyOutput := assemblyOutput st
                                                   @ bs1 @ bs2 @ [ADD_A_B] @ [STORE_A, addr]\<rparr>)
                                           else if op = ''-'' then
                                             Ok (st\<lparr>assemblyOutput := assemblyOutput st
                                                   @ bs1 @ bs2 @ [SUB_A_B] @ [STORE_A, addr]\<rparr>)
                                           else Failed (Unknown_operator op)))))))"

fun compile_lines :: "char option \<Rightarrow> string list \<Rightarrow> compiler \<Rightarrow> compiler outcome" where
  "compile_lines empty_back [] st = Ok st"
| "compile_lines empty_back (line # ls) st =
     (case compile_line empty_back st line of
        Undefined \<Rightarrow> Undefined
      | Failed e \<Rightarrow> Failed e
      | Ok st' \<Rightarrow> compile_lines empty_back ls st')"

text \<open>
  \<^verbatim>\<open>compile\<close> on the lines of the file: the loop from the initial locals, then the
  \<^verbatim>\<open>HALT\<close> appended at the end.
\<close>

definition compile :: "char option \<Rightarrow> string list \<Rightarrow> byte list outcome" where
  "compile empty_back lines =
     (case compile_lines empty_back lines
             \<lparr>assemblyOutput = [], variables = Map.empty, next_var_addr = 0x10\<rparr> of
        Undefined \<Rightarrow> Undefined
      | Failed e \<Rightarrow> Failed e
      | Ok st \<Rightarrow> Ok (assemblyOutput st @ [HALT]))"

section \<open>Scenarios\<close>

text \<open>
  A program is run the way \<^verbatim>\<open>main\<close> runs it: loaded at the start address with the program
  counter reset, then stepped until \<^verbatim>\<open>step\<close> returns false.
\<close>

definition run_program :: "byte list \<Rightarrow> CPU \<Rightarrow> CPU option" where
  "run_program program c = run (load_and_reset program c)"

text \<open>
  Pushing a list of values, each loaded into \<open>B\<close> before its \<^verbatim>\<open>PUSH_B\<close>, and popping
  \<open>n\<close> times, recording \<open>B\<close> after each \<^verbatim>\<open>POP_B\<close>.
\<close>

fun push_all :: "byte list \<Rightarrow> CPU \<Rightarrow> CPU option" where
  "push_all [] c = Some c"
| "push_all (v # vs) c =
     (case run_program [LOAD_B, v, PUSH_B, HALT] c of
        None \<Rightarrow> None
      | Some c' \<Rightarrow> push_all vs c')"

fun pop_all :: "nat \<Rightarrow> CPU \<Rightarrow> (byte list \<times> CPU) option" where
  "pop_all 0 c = Some ([], c)"
| "pop_all (Suc n) c =
     (case run_program [POP_B, HALT] c of
        None \<Rightarrow> None
      | Some c' \<Rightarrow>
          (case pop_all n c' of
             None \<Rightarrow> None
           | Some (bs, c'') \<Rightarrow> Some (reg_B c' # bs, c'')))"

section \<open>Properties of the execution engine\<close>

subsection \<open>Basic facts\<close>

lemma CPU_init_sized: "sized (CPU_init inp)"
  by (simp add: sized_def CPU_init_def)

text \<open>A 16-bit program counter always indexes a cell of a 65536-byte memory.\<close>

lemma pc_in_range: "sized c \<Longrightarrow> unat (pc c) < length (memory c)"
  using unsigned_less [of "pc c", where ?'a = nat] by (simp add: sized_def)

lemma syscallHandler_eq:
  "syscallHandler c =
     (case syscall_switch (c\<lparr>privileged := True\<rparr>) of
        None \<Rightarrow> None
      | Some c' \<Rightarrow> Some (c'\<lparr>privileged := False\<rparr>))"
  by (simp add: syscallHandler_def syscallHandler_states_def Let_def split: option.splits)

lemma step_fetches:
  "unat (pc c) < length (memory c) \<Longrightarrow>
   step c = exec (memory c ! unat (pc c))
              (c\<lparr>pc := pc c + 1, cout := cout c @ [Trace_PC (uint (pc c + 1) - 1)]\<rparr>)"
  by (simp add: step_def Let_def)

lemma run_unfold:
  "run c = (case step c of None \<Rightarrow> None | Some r \<Rightarrow> if fst r then run (snd r) else Some (snd r))"
  by (rule run.simps)

lemmas step_eval = step_def exec_def fetch_def Let_def

text \<open>The switch on an opcode that has no operand and is not \<^verbatim>\<open>SYSCALL\<close>.\<close>

lemma exec_plain:
  assumes "i \<noteq> LOAD_A" "i \<noteq> LOAD_B" "i \<noteq> STORE_A" "i \<noteq> JMP" "i \<noteq> SYSCALL"
  shows "exec i c =
    (if i = ADD_A_B then
         Some (True, c\<lparr>reg_A := word_of_int (uint (reg_A c) + uint (reg_B c)),
                 cout := cout c @ [Trace_ADD_A_B (word_of_int (uint (reg_A c) + uint (reg_B c)))]\<rparr>)
      else if i = SUB_A_B then
         Some (True, c\<lparr>reg_A := word_of_int (uint (reg_A c) - uint (reg_B c)),
                 cout := cout c @ [Trace_SUB_A_B (word_of_int (uint (reg_A c) - uint (reg_B c)))]\<rparr>)
      else if i = PUSH_B then
        (if unat (sp c) < length (stack c)
         then Some (True, c\<lparr>stack := (stack c)[unat (sp c) := reg_B c], sp := sp c + 1,
                            cout := cout c @ [Trace_PUSH_B]\<rparr>)
         else Some (True, c))
      else if i = POP_B then
        (if sp c > 0
         then (if unat (sp c - 1) < length (stack c)
               then Some (True, c\<lparr>sp := sp c - 1, reg_B := stack c ! unat (sp c - 1),
                                  cout := cout c @ [Trace_POP_B]\<rparr>)
               else None)
         else Some (True, c))
      else if i = HALT then
        Some (False, c\<lparr>cout := cout c @ [Trace_HALT]\<rparr>)
      else
        Some (False, c\<lparr>cerr := cerr c @ [Unknown_instruction i]\<rparr>))"
  unfolding exec_def Let_def using assms by (simp only: if_False)

subsection \<open>Arithmetic\<close>

lemma unat_add_byte: "unat (a + b :: byte) = (unat a + unat b) mod 256"
  by (simp add: unat_word_ariths)

lemma uint_sub_byte: "uint (a - b :: byte) = (uint a - uint b) mod 256"
  by (simp add: uint_word_ariths)

text \<open>
  Claim C8. In a state whose program counter points at \<^verbatim>\<open>ADD_A_B\<close>, \<^verbatim>\<open>step\<close> continues
  with \<open>A\<close> set to \<open>(A + B) mod 256\<close>; at \<^verbatim>\<open>SUB_A_B\<close>, with \<open>A\<close> set to
  \<open>(A - B) mod 256\<close>. Both wrap around instead of saturating: 250 + 10 gives 4 and
  5 - 10 gives 251. \<open>B\<close>, \<open>SP\<close>, the memory and the stack stay as they were.
\<close>

theorem ADD_SUB_wrap:
  assumes "unat (pc c) < length (memory c)"
  shows "(memory c ! unat (pc c) = ADD_A_B \<longrightarrow>
           (\<exists>c'. step c = Some (True, c') \<and>
                 unat (reg_A c') = (unat (reg_A c) + unat (reg_B c)) mod 256 \<and>
                 (reg_A c = 250 \<and> reg_B c = 10 \<longrightarrow> reg_A c' = 4) \<and>
                 reg_B c' = reg_B c \<and> sp c' = sp c \<and>
                 memory c' = memory c \<and> stack c' = stack c)) \<and>
         (memory c ! unat (pc c) = SUB_A_B \<longrightarrow>
           (\<exists>c'. step c = Some (True, c') \<and>
                 uint (reg_A c') = (uint (reg_A c) - uint (reg_B c)) mod 256 \<and>
                 (reg_A c = 5 \<and> reg_B c = 10 \<longrightarrow> reg_A c' = 251) \<and>
                 reg_B c' = reg_B c \<and> sp c' = sp c \<and>
                 memory c' = memory c \<and> stack c' = stack c))"
proof (intro conjI impI)
  assume op: "memory c ! unat (pc c) = ADD_A_B"
  have "step c = Some (True, c\<lparr>pc := pc c + 1, reg_A := reg_A c + reg_B c,
          cout := cout c @ [Trace_PC (uint (pc c + 1) - 1), Trace_ADD_A_B (reg_A c + reg_B c)]\<rparr>)"
    using assms op by (simp add: step_fetches exec_def Let_def)
  then show "\<exists>c'. step c = Some (True, c') \<and>
                 unat (reg_A c') = (unat (reg_A c) + unat (reg_B c)) mod 256 \<and>
                 (reg_A c = 250 \<and> reg_B c = 10 \<longrightarrow> reg_A c' = 4) \<and>
                 reg_B c' = reg_B c \<and> sp c' = sp c \<and>
                 memory c' = memory c \<and> stack c' = stack c"
    by (auto simp: unat_add_byte)
next
  assume op: "memory c ! unat (pc c) = SUB_A_B"
  have "step c = Some (True, c\<lparr>pc := pc c + 1, reg_A := reg_A c - reg_B c,
          cout := cout c @ [Trace_PC (uint (pc c + 1) - 1), Trace_SUB_A_B (reg_A c - reg_B c)]\<rparr>)"
    using assms op by (simp add: step_fetches exec_def Let_def)
  then show "\<exists>c'. step c = Some (True, c') \<and>
                 uint (reg_A c') = (uint (reg_A c) - uint (reg_B c)) mod 256 \<and>
                 (reg_A c = 5 \<and> reg_B c = 10 \<longrightarrow> reg_A c' = 251) \<and>
                 reg_B c' = reg_B c \<and> sp c' = sp c \<and>
                 memory c' = memory c \<and> stack c' = stack c"
    by (auto simp: uint_sub_byte)
qed

text \<open>The two examples of the claim, on a fresh machine with the opcode at address 0.\<close>

theorem ADD_SUB_wrap_witness:
  "(\<exists>c'. step ((CPU_init [])\<lparr>reg_A := 250, reg_B := 10,
                 memory := (memory (CPU_init []))[0 := ADD_A_B]\<rparr>) = Some (True, c') \<and>
         reg_A c' = 4 \<and> reg_B c' = 10) \<and>
   (\<exists>c'. step ((CPU_init [])\<lparr>reg_A := 5, reg_B := 10,
                 memory := (memory (CPU_init []))[0 := SUB_A_B]\<rparr>) = Some (True, c') \<and>
         reg_A c' = 251 \<and> reg_B c' = 10)"
proof -
  let ?a = "(CPU_init [])\<lparr>reg_A := 250, reg_B := 10,
                 memory := (memory (CPU_init []))[0 := ADD_A_B]\<rparr>"
  let ?s = "(CPU_init [])\<lparr>reg_A := 5, reg_B := 10,
                 memory := (memory (CPU_init []))[0 := SUB_A_B]\<rparr>"
  have a: "unat (pc ?a) < length (memory ?a)" "memory ?a ! unat (pc ?a) = ADD_A_B"
    "reg_A ?a = 250" "reg_B ?a = 10"
    by (simp_all add: CPU_init_def)
  have s: "unat (pc ?s) < length (memory ?s)" "memory ?s ! unat (pc ?s) = SUB_A_B"
    "reg_A ?s = 5" "reg_B ?s = 10"
    by (simp_all add: CPU_init_def)
  from ADD_SUB_wrap [OF a(1)] a(2-4)
  have "\<exists>c'. step ?a = Some (True, c') \<and> reg_A c' = 4 \<and> reg_B c' = 10"
    by auto
  moreover from ADD_SUB_wrap [OF s(1)] s(2-4)
  have "\<exists>c'. step ?s = Some (True, c') \<and> reg_A c' = 251 \<and> reg_B c' = 10"
    by auto
  ultimately show ?thesis by blast
qed

subsection \<open>Loading a program\<close>

lemma loadProgram_fits:
  assumes "unat base + length bytes \<le> length (memory c)"
  shows "memory (loadProgram bytes base c) =
           take (unat base) (memory c) @ bytes @ drop (unat base + length bytes) (memory c)"
    and "cerr (loadProgram bytes base c) = cerr c"
  using assms by (simp_all add: loadProgram_def)

lemma load_and_reset_fits:
  assumes "sized c" "length p \<le> 65536"
  shows "load_and_reset p c = c\<lparr>memory := p @ drop (length p) (memory c), pc := 0\<rparr>"
  using assms by (simp add: load_and_reset_def loadProgram_def sized_def)

lemma loadProgram_keeps_sizes: "sized c \<Longrightarrow> sized (loadProgram bytes base c)"
  by (auto simp: loadProgram_def sized_def)

text \<open>
  Claim C5. On the 65536-byte memory, \<^verbatim>\<open>loadProgram\<close> with
  \<open>base + length bytes \<le> 65536\<close> puts byte \<open>i\<close> of the program into cell \<open>base + i\<close>
  and reports nothing; with \<open>base + length bytes > 65536\<close> it reports that the program is
  too large and leaves the whole memory as it was.
\<close>

theorem loadProgram_copies_or_rejects:
  assumes "sized c"
  shows "(unat base + length bytes \<le> 65536 \<longrightarrow>
            (\<forall>i < length bytes. memory (loadProgram bytes base c) ! (unat base + i) = bytes ! i) \<and>
            cerr (loadProgram bytes base c) = cerr c) \<and>
         (unat base + length bytes > 65536 \<longrightarrow>
            memory (loadProgram bytes base c) = memory c \<and>
            cerr (loadProgram bytes base c) = cerr c @ [Program_too_large base])"
proof (intro conjI impI allI)
  assume fits: "unat base + length bytes \<le> 65536"
  then have le: "unat base + length bytes \<le> length (memory c)"
    using assms by (simp add: sized_def)
  show "cerr (loadProgram bytes base c) = cerr c"
    by (rule loadProgram_fits(2) [OF le])
  fix i assume "i < length bytes"
  then show "memory (loadProgram bytes base c) ! (unat base + i) = bytes ! i"
    using le by (simp add: loadProgram_fits(1) [OF le] nth_append)
next
  assume "65536 < unat base + length bytes"
  then have "unat base + length bytes > length (memory c)"
    using assms by (simp add: sized_def)
  then show "memory (loadProgram bytes base c) = memory c"
    and "cerr (loadProgram bytes base c) = cerr c @ [Program_too_large base]"
    by (simp_all add: loadProgram_def)
qed

text \<open>
  Three bytes loaded at 65533 end exactly at the last cell; loaded at 65534 they do not
  fit.
\<close>

theorem loadProgram_copies_or_rejects_witness:
  "sized (CPU_init []) \<and>
   memory (loadProgram [7, 8, 9] 65533 (CPU_init [])) ! 65535 = 9 \<and>
   memory (loadProgram [7, 8, 9] 65534 (CPU_init [])) = memory (CPU_init []) \<and>
   cerr (loadProgram [7, 8, 9] 65534 (CPU_init [])) = [Program_too_large 65534]"
proof -
  have s: "sized (CPU_init [])" by (rule CPU_init_sized)
  have "\<forall>i < 3. memory (loadProgram [7, 8, 9] 65533 (CPU_init [])) ! (65533 + i) = [7, 8, 9 :: byte] ! i"
    using loadProgram_copies_or_rejects [OF s, of 65533 "[7, 8, 9]"] by simp
  then have "memory (loadProgram [7, 8, 9] 65533 (CPU_init [])) ! (65533 + 2) = [7, 8, 9 :: byte] ! 2"
    by (rule allE [where x = 2]) simp
  then have a: "memory (loadProgram [7, 8, 9] 65533 (CPU_init [])) ! 65535 = 9"
    by simp
  have b: "memory (loadProgram [7, 8, 9] 65534 (CPU_init [])) = memory (CPU_init []) \<and>
           cerr (loadProgram [7, 8, 9] 65534 (CPU_init [])) = cerr (CPU_init []) @ [Program_too_large 65534]"
    using loadProgram_copies_or_rejects [OF s, of 65534 "[7, 8, 9]"] by simp
  have c: "cerr (CPU_init []) = []" by (simp add: CPU_init_def)
  show ?thesis using s a b c by simp
qed

subsection \<open>Syscalls\<close>

lemma step_unknown_syscall:
  assumes "unat (pc c) < length (memory c)" "memory c ! unat (pc c) = SYSCALL"
    "reg_A c \<noteq> PRINT_CHAR" "reg_A c \<noteq> READ_CHAR"
  shows "step c = Some (True, c\<lparr>pc := pc c + 1, privileged := False,
            cout := cout c @ [Trace_PC (uint (pc c + 1) - 1), Trace_SYSCALL],
            cerr := cerr c @ [Unknown_syscall (reg_A c)]\<rparr>)"
  using assms by (simp add: step_fetches exec_def syscallHandler_eq syscall_switch_def)

lemma unknown_syscall_program_runs:
  assumes "sized c"
  shows "\<exists>c'. run_program [LOAD_A, 7, SYSCALL, HALT] c = Some c' \<and>
           reg_A c' = 7 \<and> reg_B c' = reg_B c \<and> pc c' = 4 \<and>
           cerr c' = cerr c @ [Unknown_syscall 7] \<and>
           cout c' = cout c @ [Trace_PC 0, Trace_LOAD_A 7, Trace_PC 2, Trace_SYSCALL,
                               Trace_PC 3, Trace_HALT]"
proof -
  have len: "length (memory c) = 65536" using assms by (simp add: sized_def)
  show ?thesis
    unfolding run_program_def
      load_and_reset_fits [OF assms, of "[LOAD_A, 7, SYSCALL, HALT]", simplified]
    apply (subst run_unfold, simp add: step_eval len)
    apply (subst run_unfold, simp add: step_eval len syscallHandler_eq syscall_switch_def)
    apply (subst run_unfold, simp add: step_eval len)
    done
qed

text \<open>
  Claim C2. The machine with \<^verbatim>\<open>SYSCALL\<close> at address 0, \<open>A = 7\<close> and \<open>B = 9\<close>: \<^verbatim>\<open>step\<close>
  reports the unknown syscall number and leaves \<open>A\<close> and \<open>B\<close> alone, and the value it
  returns is \<open>True\<close>: the handler returns nothing, and the \<^verbatim>\<open>SYSCALL\<close> case ends with
  \<^verbatim>\<open>break\<close> like every instruction that lets execution go on. So the program
  \<^verbatim>\<open>LOAD_A 7; SYSCALL; HALT\<close> runs on past the unknown syscall to its \<^verbatim>\<open>HALT\<close>.
\<close>

theorem unknown_syscall_continues:
  "step ((CPU_init [])\<lparr>reg_A := 7, reg_B := 9, memory := (memory (CPU_init []))[0 := SYSCALL]\<rparr>) =
     Some (True, (CPU_init [])\<lparr>reg_A := 7, reg_B := 9, pc := 1,
                   memory := (memory (CPU_init []))[0 := SYSCALL],
                   cout := [Trace_PC 0, Trace_SYSCALL], cerr := [Unknown_syscall 7]\<rparr>) \<and>
   (\<exists>c'. run_program [LOAD_A, 7, SYSCALL, HALT] (CPU_init []) = Some c' \<and>
         reg_A c' = 7 \<and> reg_B c' = 0 \<and> pc c' = 4 \<and> cerr c' = [Unknown_syscall 7] \<and>
         cout c' = [Trace_PC 0, Trace_LOAD_A 7, Trace_PC 2, Trace_SYSCALL, Trace_PC 3, Trace_HALT])"
proof
  show "step ((CPU_init [])\<lparr>reg_A := 7, reg_B := 9, memory := (memory (CPU_init []))[0 := SYSCALL]\<rparr>) =
     Some (True, (CPU_init [])\<lparr>reg_A := 7, reg_B := 9, pc := 1,
                   memory := (memory (CPU_init []))[0 := SYSCALL],
                   cout := [Trace_PC 0, Trace_SYSCALL], cerr := [Unknown_syscall 7]\<rparr>)"
    by (simp add: step_unknown_syscall CPU_init_def)
  show "\<exists>c'. run_program [LOAD_A, 7, SYSCALL, HALT] (CPU_init []) = Some c' \<and>
         reg_A c' = 7 \<and> reg_B c' = 0 \<and> pc c' = 4 \<and> cerr c' = [Unknown_syscall 7] \<and>
         cout c' = [Trace_PC 0, Trace_LOAD_A 7, Trace_PC 2, Trace_SYSCALL, Trace_PC 3, Trace_HALT]"
    using unknown_syscall_program_runs [OF CPU_init_sized, of "[]"] by (simp add: CPU_init_def)
qed

lemma syscall_switch_privileged:
  "syscall_switch c = Some d \<Longrightarrow> privileged d = privileged c"
  by (auto simp: syscall_switch_def split: if_splits list.splits option.splits)

lemma syscallHandler_clears: "syscallHandler c = Some c' \<Longrightarrow> \<not> privileged c'"
  by (auto simp: syscallHandler_eq split: option.splits)

lemma exec_operand_privileged:
  assumes "i = LOAD_A \<or> i = LOAD_B \<or> i = STORE_A \<or> i = JMP" "exec i c = Some (ok, c')"
  shows "privileged c' = privileged c"
proof -
  consider "i = LOAD_A" | "i = LOAD_B" | "i = STORE_A" | "i = JMP" using assms(1) by blast
  then show ?thesis
  proof cases
    case 1
    then show ?thesis using assms(2) by (auto simp: exec_def fetch_def split: if_splits)
  next
    case 2
    then show ?thesis using assms(2) by (auto simp: exec_def fetch_def split: if_splits)
  next
    case 3
    then show ?thesis using assms(2) by (auto simp: exec_def fetch_def Let_def split: if_splits)
  next
    case 4
    then show ?thesis using assms(2) by (auto simp: exec_def fetch_def Let_def split: if_splits)
  qed
qed

lemma exec_plain_privileged:
  assumes "i \<noteq> LOAD_A" "i \<noteq> LOAD_B" "i \<noteq> STORE_A" "i \<noteq> JMP" "i \<noteq> SYSCALL"
    "exec i c = Some (ok, c')"
  shows "privileged c' = privileged c"
proof -
  note e = exec_plain [OF assms(1-5), of c]
  consider "i = ADD_A_B" | "i = SUB_A_B" | "i = PUSH_B" | "i = POP_B" | "i = HALT"
    | "i \<noteq> ADD_A_B" "i \<noteq> SUB_A_B" "i \<noteq> PUSH_B" "i \<noteq> POP_B" "i \<noteq> HALT"
    by blast
  then show ?thesis
  proof cases
    case 1 then show ?thesis using assms(6) e by auto
  next
    case 2 then show ?thesis using assms(6) e by auto
  next
    case 3 then show ?thesis using assms(6) e by (auto split: if_splits)
  next
    case 4 then show ?thesis using assms(6) e by (auto split: if_splits)
  next
    case 5 then show ?thesis using assms(6) e by auto
  next
    case 6 then show ?thesis using assms(6) e by auto
  qed
qed

lemma exec_SYSCALL:
  "exec SYSCALL c =
     (case syscallHandler (c\<lparr>cout := cout c @ [Trace_SYSCALL]\<rparr>) of
        None \<Rightarrow> None
      | Some c' \<Rightarrow> Some (True, c'))"
  by (simp add: exec_def)

lemma exec_privileged:
  assumes "\<not> privileged c" "exec i c = Some (ok, c')"
  shows "\<not> privileged c'"
proof (cases "i = SYSCALL")
  case True
  then have "syscallHandler (c\<lparr>cout := cout c @ [Trace_SYSCALL]\<rparr>) = Some c'"
    using assms(2) by (simp add: exec_SYSCALL split: option.splits)
  then show ?thesis by (rule syscallHandler_clears)
next
  case False
  show ?thesis
  proof (cases "i = LOAD_A \<or> i = LOAD_B \<or> i = STORE_A \<or> i = JMP")
    case True
    then show ?thesis using assms exec_operand_privileged [of i c ok c'] by simp
  next
    case F: False
    then show ?thesis using assms False exec_plain_privileged [of i c ok c'] by simp
  qed
qed

subsection \<open>The bounds check on the program counter\<close>

lemma step_unknown_opcode:
  assumes "unat (pc c) < length (memory c)"
    "memory c ! unat (pc c) \<notin> {LOAD_A, LOAD_B, STORE_A, ADD_A_B, SUB_A_B, PUSH_B, POP_B, JMP, SYSCALL, HALT}"
  shows "step c = Some (False, c\<lparr>pc := pc c + 1,
            cout := cout c @ [Trace_PC (uint (pc c + 1) - 1)],
            cerr := cerr c @ [Unknown_instruction (memory c ! unat (pc c))]\<rparr>)"
  using assms by (simp add: step_fetches exec_plain)

text \<open>
  Claim C3. Whenever the program counter is at or beyond \<^verbatim>\<open>memory.size()\<close>, \<^verbatim>\<open>step\<close>
  returns false and changes nothing but \<^verbatim>\<open>cerr\<close>: no fetch, no trace, registers, memory and
  stack as before. The unknown-opcode path is another one: it has fetched, advanced the
  program counter and printed the trace prefix, and its diagnostic differs. This holds for
  a memory vector of any size, the 65536 bytes of the constructor among them.
\<close>

theorem pc_bounds_guard:
  "(length (memory c) \<le> unat (pc c) \<longrightarrow>
      step c = Some (False, c\<lparr>cerr := cerr c @ [PC_out_of_bounds]\<rparr>)) \<and>
   (unat (pc c) < length (memory c) \<and>
    memory c ! unat (pc c) \<notin> {LOAD_A, LOAD_B, STORE_A, ADD_A_B, SUB_A_B, PUSH_B, POP_B, JMP,
                               SYSCALL, HALT} \<longrightarrow>
      step c = Some (False, c\<lparr>pc := pc c + 1,
                       cout := cout c @ [Trace_PC (uint (pc c + 1) - 1)],
                       cerr := cerr c @ [Unknown_instruction (memory c ! unat (pc c))]\<rparr>) \<and>
      Unknown_instruction (memory c ! unat (pc c)) \<noteq> PC_out_of_bounds)"
  using step_unknown_opcode by (simp add: step_def)

text \<open>
  A machine whose memory vector is one byte short, with the program counter at 0xFFFF:
  the check fires. On the machine as constructed the same program counter is within
  bounds: \<^verbatim>\<open>step\<close> fetches the opcode 0 there, the program counter wraps to 0, and the
  diagnostic is the unknown-opcode one.
\<close>

theorem pc_bounds_guard_witness:
  "length (memory ((CPU_init [])\<lparr>memory := replicate 65535 0, pc := 0xFFFF\<rparr>)) \<le>
     unat (pc ((CPU_init [])\<lparr>memory := replicate 65535 0, pc := 0xFFFF\<rparr>)) \<and>
   step ((CPU_init [])\<lparr>memory := replicate 65535 0, pc := 0xFFFF\<rparr>) =
     Some (False, (CPU_init [])\<lparr>memory := replicate 65535 0, pc := 0xFFFF,
                    cerr := [PC_out_of_bounds]\<rparr>) \<and>
   step ((CPU_init [])\<lparr>pc := 0xFFFF\<rparr>) =
     Some (False, (CPU_init [])\<lparr>pc := 0, cout := [Trace_PC (- 1)], cerr := [Unknown_instruction 0]\<rparr>)"
proof -
  let ?e = "(CPU_init [])\<lparr>memory := replicate 65535 0, pc := 0xFFFF\<rparr>"
  let ?t = "(CPU_init [])\<lparr>pc := 0xFFFF\<rparr>"
  have a: "length (memory ?e) \<le> unat (pc ?e)"
    by simp
  have c: "unat (pc ?t) < length (memory ?t)" "memory ?t ! unat (pc ?t) = 0"
    by (simp_all add: CPU_init_def)
  have "step ?e = Some (False, ?e\<lparr>cerr := cerr ?e @ [PC_out_of_bounds]\<rparr>)"
    using pc_bounds_guard [of ?e] a by blast
  then have 1: "step ?e = Some (False, (CPU_init [])\<lparr>memory := replicate 65535 0, pc := 0xFFFF,
                    cerr := [PC_out_of_bounds]\<rparr>)"
    by (simp add: CPU_init_def)
  have "step ?t = Some (False, ?t\<lparr>pc := pc ?t + 1,
                       cout := cout ?t @ [Trace_PC (uint (pc ?t + 1) - 1)],
                       cerr := cerr ?t @ [Unknown_instruction (memory ?t ! unat (pc ?t))]\<rparr>)"
    using pc_bounds_guard [of ?t] c by simp
  then have 2: "step ?t = Some (False, (CPU_init [])\<lparr>pc := 0, cout := [Trace_PC (- 1)],
                   cerr := [Unknown_instruction 0]\<rparr>)"
    by (simp add: CPU_init_def)
  show ?thesis using a 1 2 by blast
qed

text \<open>
  With the memory at its 65536 bytes, which \<^verbatim>\<open>loadProgram\<close> and \<^verbatim>\<open>step\<close> keep, no state
  has the program counter out of bounds: the counter has 16 bits. There the check never
  fires.
\<close>

lemma pc_out_of_bounds_unreachable:
  "\<not> (\<exists>c :: CPU. length (memory c) = 65536 \<and> length (memory c) \<le> unat (pc c))"
proof
  assume "\<exists>c :: CPU. length (memory c) = 65536 \<and> length (memory c) \<le> unat (pc c)"
  then obtain c :: CPU where c: "length (memory c) = 65536" "length (memory c) \<le> unat (pc c)"
    by blast
  have "unat (pc c) < 65536"
    using unsigned_less [of "pc c", where ?'a = nat] by simp
  then show False using c by simp
qed

subsection \<open>The stack\<close>

lemma unat_sp_Suc: "unat (s :: 16 word) < 256 \<Longrightarrow> unat (s + 1) = Suc (unat s)"
  by (simp add: unat_word_ariths)

lemma unat_sp_pred: "0 < (s :: 16 word) \<Longrightarrow> unat (s - 1) = unat s - 1"
  by (simp add: unat_minus_one word_gt_0)

lemma sp_zero: "\<not> 0 < (s :: 16 word) \<Longrightarrow> s = 0"
  by (simp add: word_gt_0)

lemma sp_pos: "Suc n \<le> unat (s :: 16 word) \<Longrightarrow> 0 < s"
  by (simp add: word_less_nat_alt)

lemma sp_nz: "0 < (s :: 16 word) \<Longrightarrow> s \<noteq> 0"
  by (simp add: word_gt_0)

lemma sp_pos_unat: "0 < (s :: 16 word) \<Longrightarrow> 0 < unat s"
  by (simp add: word_less_nat_alt)

lemma push_program:
  assumes "sized c"
  shows "\<exists>c'. run_program [LOAD_B, v, PUSH_B, HALT] c = Some c' \<and> sized c' \<and> reg_B c' = v \<and>
           (unat (sp c) < 256 \<longrightarrow> sp c' = sp c + 1 \<and> stack c' = (stack c)[unat (sp c) := v]) \<and>
           (\<not> unat (sp c) < 256 \<longrightarrow> sp c' = sp c \<and> stack c' = stack c)"
proof -
  have len: "length (memory c) = 65536" "length (stack c) = 256"
    using assms by (simp_all add: sized_def)
  show ?thesis
  proof (cases "unat (sp c) < 256")
    case True
    show ?thesis
      unfolding run_program_def load_and_reset_fits [OF assms, of "[LOAD_B, v, PUSH_B, HALT]", simplified]
      apply (subst run_unfold, simp add: step_eval len)
      apply (subst run_unfold, simp add: step_eval len True)
      apply (subst run_unfold, simp add: step_eval len True sized_def)
      done
  next
    case False
    show ?thesis
      unfolding run_program_def load_and_reset_fits [OF assms, of "[LOAD_B, v, PUSH_B, HALT]", simplified]
      apply (subst run_unfold, simp add: step_eval len)
      apply (subst run_unfold, simp add: step_eval len False)
      apply (subst run_unfold, simp add: step_eval len False sized_def)
      done
  qed
qed

lemma pop_program:
  assumes "sized c" "unat (sp c) \<le> 256"
  shows "\<exists>c'. run_program [POP_B, HALT] c = Some c' \<and> sized c' \<and> stack c' = stack c \<and>
           (0 < sp c \<longrightarrow> sp c' = sp c - 1 \<and> reg_B c' = stack c ! (unat (sp c) - 1)) \<and>
           (sp c = 0 \<longrightarrow> sp c' = sp c \<and> reg_B c' = reg_B c)"
proof -
  have len: "length (memory c) = 65536" "length (stack c) = 256"
    using assms by (simp_all add: sized_def)
  show ?thesis
  proof (cases "0 < sp c")
    case True
    then have nz: "sp c \<noteq> 0" by (rule sp_nz)
    have "0 < unat (sp c)" using True by (rule sp_pos_unat)
    then have in_stack: "unat (sp c - 1) < 256"
      using assms(2) True by (simp add: unat_sp_pred)
    show ?thesis
      unfolding run_program_def load_and_reset_fits [OF assms(1), of "[POP_B, HALT]", simplified]
      apply (subst run_unfold, simp add: step_eval len True in_stack)
      apply (subst run_unfold, simp add: step_eval len True nz sized_def unat_sp_pred)
      done
  next
    case False
    then have z: "sp c = 0" by (rule sp_zero)
    show ?thesis
      unfolding run_program_def load_and_reset_fits [OF assms(1), of "[POP_B, HALT]", simplified]
      apply (subst run_unfold, simp add: step_eval len z)
      apply (subst run_unfold, simp add: step_eval len z sized_def)
      done
  qed
qed

lemma push_all_fits:
  "sized c \<Longrightarrow> unat (sp c) + length vs \<le> 256 \<Longrightarrow>
   \<exists>c'. push_all vs c = Some c' \<and> sized c' \<and> unat (sp c') = unat (sp c) + length vs \<and>
        take (unat (sp c')) (stack c') = take (unat (sp c)) (stack c) @ vs"
proof (induction vs arbitrary: c)
  case Nil
  then show ?case by simp
next
  case (Cons v vs)
  have room: "unat (sp c) < 256" using Cons.prems(2) by simp
  obtain c1 where c1: "run_program [LOAD_B, v, PUSH_B, HALT] c = Some c1" "sized c1"
    "sp c1 = sp c + 1" "stack c1 = (stack c)[unat (sp c) := v]"
    using push_program [OF Cons.prems(1), of v] room by blast
  have sp1: "unat (sp c1) = Suc (unat (sp c))"
    using room by (simp add: c1(3) unat_sp_Suc)
  then have "unat (sp c1) + length vs \<le> 256" using Cons.prems(2) by simp
  from Cons.IH [OF c1(2) this] obtain c' where c': "push_all vs c1 = Some c'" "sized c'"
    "unat (sp c') = unat (sp c1) + length vs"
    "take (unat (sp c')) (stack c') = take (unat (sp c1)) (stack c1) @ vs"
    by blast
  have "length (stack c) = 256" using Cons.prems(1) by (simp add: sized_def)
  then have "take (unat (sp c1)) (stack c1) = take (unat (sp c)) (stack c) @ [v]"
    using room by (simp add: sp1 c1(4) take_Suc_conv_app_nth)
  then show ?case using c1(1) c' sp1 by simp
qed

lemma pop_all_within:
  "sized c \<Longrightarrow> n \<le> unat (sp c) \<Longrightarrow> unat (sp c) \<le> 256 \<Longrightarrow>
   \<exists>c'. pop_all n c = Some (rev (drop (unat (sp c) - n) (take (unat (sp c)) (stack c))), c')"
proof (induction n arbitrary: c)
  case 0
  then show ?case by (simp add: sized_def)
next
  case (Suc n)
  have pos: "0 < sp c" using Suc.prems(2) by (rule sp_pos)
  obtain c1 where c1: "run_program [POP_B, HALT] c = Some c1" "sized c1" "stack c1 = stack c"
    "sp c1 = sp c - 1" "reg_B c1 = stack c ! (unat (sp c) - 1)"
    using pop_program [OF Suc.prems(1,3)] pos by blast
  have sp1: "unat (sp c1) = unat (sp c) - 1" using pos by (simp add: c1(4) unat_sp_pred)
  have "n \<le> unat (sp c1)" "unat (sp c1) \<le> 256" using Suc.prems sp1 by simp_all
  from Suc.IH [OF c1(2) this] obtain c' where
    c': "pop_all n c1 = Some (rev (drop (unat (sp c1) - n) (take (unat (sp c1)) (stack c1))), c')"
    by blast
  have len: "length (stack c) = 256" using Suc.prems(1) by (simp add: sized_def)
  define k where "k = unat (sp c)"
  have k: "Suc n \<le> k" "k \<le> 256" using Suc.prems by (simp_all add: k_def)
  have "drop (k - Suc n) (take k (stack c)) =
        drop (k - Suc n) (take (k - 1) (stack c)) @ [stack c ! (k - 1)]"
  proof -
    have "take k (stack c) = take (k - 1) (stack c) @ [stack c ! (k - 1)]"
      using k len by (metis Suc_diff_1 take_Suc_conv_app_nth Suc_le_lessD less_le_trans
          diff_less zero_less_one le_imp_less_Suc  less_eq_Suc_le zero_less_Suc)
    then show ?thesis using k len by simp
  qed
  then have "rev (drop (k - Suc n) (take k (stack c))) =
     stack c ! (k - 1) # rev (drop (k - 1 - n) (take (k - 1) (stack c)))"
    by simp
  then show ?case using c1 c' sp1 by (simp add: k_def)
qed

lemma push_all_append:
  "push_all (xs @ ys) c = (case push_all xs c of None \<Rightarrow> None | Some c' \<Rightarrow> push_all ys c')"
  by (induction xs arbitrary: c) (auto split: option.splits)

lemma step_PUSH_B_full:
  assumes "sized c" "memory c ! unat (pc c) = PUSH_B" "sp c = 256"
  shows "step c = Some (True, c\<lparr>pc := pc c + 1, cout := cout c @ [Trace_PC (uint (pc c + 1) - 1)]\<rparr>)"
  using assms pc_in_range [OF assms(1)] by (simp add: step_fetches exec_plain sized_def)

lemma step_POP_B_empty:
  assumes "sized c" "memory c ! unat (pc c) = POP_B" "sp c = 0"
  shows "step c = Some (True, c\<lparr>pc := pc c + 1, cout := cout c @ [Trace_PC (uint (pc c + 1) - 1)]\<rparr>)"
  using assms pc_in_range [OF assms(1)] by (simp add: step_fetches exec_plain sized_def)

text \<open>
  Claim C6, as stated, lets the number of values be any \<open>N\<close>. With 257 values, 256 zeros
  and then a one, the last \<^verbatim>\<open>PUSH_B\<close> finds the stack full and stores nothing, and the
  first \<^verbatim>\<open>POP_B\<close> gives back a zero instead of the one: the values do not come back in
  LIFO order.
\<close>

theorem lifo_fails_beyond_capacity:
  "sp (CPU_init []) = 0 \<and>
   \<not> (\<exists>c' c''. push_all (replicate 256 0 @ [1]) (CPU_init []) = Some c' \<and>
                 pop_all 257 c' = Some (rev (replicate 256 0 @ [1]), c''))"
proof
  show "sp (CPU_init []) = 0" by (simp add: CPU_init_def)
  show "\<not> (\<exists>c' c''. push_all (replicate 256 0 @ [1]) (CPU_init []) = Some c' \<and>
                 pop_all 257 c' = Some (rev (replicate 256 0 @ [1]), c''))"
  proof
    assume "\<exists>c' c''. push_all (replicate 256 0 @ [1]) (CPU_init []) = Some c' \<and>
                 pop_all 257 c' = Some (rev (replicate 256 0 @ [1]), c'')"
    then obtain c' c'' where all: "push_all (replicate 256 0 @ [1]) (CPU_init []) = Some c'"
      and pops: "pop_all 257 c' = Some (rev (replicate 256 0 @ [1]), c'')"
      by blast
    have s0: "sized (CPU_init [])" "unat (sp (CPU_init [])) = 0"
      by (simp_all add: CPU_init_sized) (simp add: CPU_init_def)
    obtain c1 where c1: "push_all (replicate 256 0) (CPU_init []) = Some c1" "sized c1"
      "unat (sp c1) = 256" "take 256 (stack c1) = replicate 256 0"
      using push_all_fits [OF s0(1), of "replicate 256 0"] s0(2) by auto
    obtain c2 where c2: "run_program [LOAD_B, 1, PUSH_B, HALT] c1 = Some c2" "sized c2"
      "sp c2 = sp c1" "stack c2 = stack c1"
      using push_program [OF c1(2), of 1] c1(3) by auto
    have "c' = c2" using all c1(1) c2(1) by (simp add: push_all_append)
    have sp2: "unat (sp c2) = 256" "0 < sp c2"
      using c1(3) c2(3) by (simp_all add: word_less_nat_alt)
    obtain c3 where c3: "run_program [POP_B, HALT] c2 = Some c3"
      "reg_B c3 = stack c2 ! (unat (sp c2) - 1)"
      using pop_program [OF c2(2)] sp2 by auto
    have "stack c1 ! 255 = take 256 (stack c1) ! 255" by simp
    then have b3: "reg_B c3 = 0" using c3(2) c2(4) sp2(1) c1(4) by simp
    have "pop_all 257 c2 = pop_all (Suc 256) c2" by simp
    also have "\<dots> = (case pop_all 256 c3 of None \<Rightarrow> None
                       | Some (bs, d) \<Rightarrow> Some (reg_B c3 # bs, d))"
      unfolding pop_all.simps(2) [of 256 c2] c3(1) by simp
    finally have "(case pop_all 256 c3 of None \<Rightarrow> None
                   | Some (bs, d) \<Rightarrow> Some (reg_B c3 # bs, d)) =
                  Some (rev (replicate 256 0 @ [1]), c'')"
      using pops \<open>c' = c2\<close> by simp
    then have "reg_B c3 = 1"
      by (auto split: option.splits)
    then show False using b3 by simp
  qed
qed

text \<open>
  Claim C6, amended. From \<open>SP = 0\<close>, pushing at most 256 values, each loaded into \<open>B\<close>
  before its \<^verbatim>\<open>PUSH_B\<close>, and popping as many gives the values back in \<open>B\<close> in reverse
  order. With \<open>SP = 256\<close> a \<^verbatim>\<open>PUSH_B\<close>, and with \<open>SP = 0\<close> a \<^verbatim>\<open>POP_B\<close>, leaves
  \<open>SP\<close>, \<open>B\<close>, the stack and the memory unchanged.
\<close>

theorem stack_discipline:
  assumes "sized c"
  shows "(sp c = 0 \<and> length vs \<le> 256 \<longrightarrow>
            (\<exists>c' c''. push_all vs c = Some c' \<and> pop_all (length vs) c' = Some (rev vs, c''))) \<and>
         (sp c = 256 \<and> memory c ! unat (pc c) = PUSH_B \<longrightarrow>
            (\<exists>c'. step c = Some (True, c') \<and> sp c' = sp c \<and> reg_B c' = reg_B c \<and>
                  stack c' = stack c \<and> memory c' = memory c)) \<and>
         (sp c = 0 \<and> memory c ! unat (pc c) = POP_B \<longrightarrow>
            (\<exists>c'. step c = Some (True, c') \<and> sp c' = sp c \<and> reg_B c' = reg_B c \<and>
                  stack c' = stack c \<and> memory c' = memory c))"
proof (intro conjI impI)
  assume h: "sp c = 0 \<and> length vs \<le> 256"
  then have "unat (sp c) + length vs \<le> 256" by simp
  from push_all_fits [OF assms this] h obtain c' where c': "push_all vs c = Some c'" "sized c'"
    "unat (sp c') = length vs" "take (unat (sp c')) (stack c') = vs"
    by auto
  have "length vs \<le> unat (sp c')" "unat (sp c') \<le> 256" using c'(3) h by simp_all
  from pop_all_within [OF c'(2) this] obtain c'' where
    "pop_all (length vs) c' =
       Some (rev (drop (unat (sp c') - length vs) (take (unat (sp c')) (stack c'))), c'')"
    by blast
  then have "pop_all (length vs) c' = Some (rev vs, c'')"
    using c'(3,4) by simp
  then show "\<exists>c' c''. push_all vs c = Some c' \<and> pop_all (length vs) c' = Some (rev vs, c'')"
    using c'(1) by blast
next
  assume "sp c = 256 \<and> memory c ! unat (pc c) = PUSH_B"
  then show "\<exists>c'. step c = Some (True, c') \<and> sp c' = sp c \<and> reg_B c' = reg_B c \<and>
                  stack c' = stack c \<and> memory c' = memory c"
    using step_PUSH_B_full [OF assms] by simp
next
  assume "sp c = 0 \<and> memory c ! unat (pc c) = POP_B"
  then show "\<exists>c'. step c = Some (True, c') \<and> sp c' = sp c \<and> reg_B c' = reg_B c \<and>
                  stack c' = stack c \<and> memory c' = memory c"
    using step_POP_B_empty [OF assms] by simp
qed

text \<open>Three values pushed and popped; a push on the full stack; a pop on the empty one.\<close>

theorem stack_discipline_witness:
  "(\<exists>c' c''. push_all [1, 2, 3] (CPU_init []) = Some c' \<and> pop_all 3 c' = Some ([3, 2, 1], c'')) \<and>
   (\<exists>c'. step ((CPU_init [])\<lparr>sp := 256, reg_B := 5,
                 memory := (memory (CPU_init []))[0 := PUSH_B]\<rparr>) = Some (True, c') \<and>
         sp c' = 256 \<and> reg_B c' = 5 \<and> stack c' = stack (CPU_init [])) \<and>
   (\<exists>c'. step ((CPU_init [])\<lparr>reg_B := 5,
                 memory := (memory (CPU_init []))[0 := POP_B]\<rparr>) = Some (True, c') \<and>
         sp c' = 0 \<and> reg_B c' = 5 \<and> stack c' = stack (CPU_init []))"
proof -
  let ?p = "(CPU_init [])\<lparr>sp := 256, reg_B := 5, memory := (memory (CPU_init []))[0 := PUSH_B]\<rparr>"
  let ?q = "(CPU_init [])\<lparr>reg_B := 5, memory := (memory (CPU_init []))[0 := POP_B]\<rparr>"
  have i: "sized (CPU_init [])" "sp (CPU_init []) = 0"
    by (simp_all add: CPU_init_sized) (simp add: CPU_init_def)
  have p: "sized ?p" "sp ?p = 256" "memory ?p ! unat (pc ?p) = PUSH_B" "reg_B ?p = 5"
    "stack ?p = stack (CPU_init [])"
    by (simp_all add: sized_def CPU_init_def)
  have q: "sized ?q" "sp ?q = 0" "memory ?q ! unat (pc ?q) = POP_B" "reg_B ?q = 5"
    "stack ?q = stack (CPU_init [])"
    by (simp_all add: sized_def CPU_init_def)
  have "\<exists>c' c''. push_all [1, 2, 3] (CPU_init []) = Some c' \<and>
           pop_all (length [1, 2, 3 :: byte]) c' = Some (rev [1, 2, 3], c'')"
    using stack_discipline [OF i(1), of "[1, 2, 3]"] i(2) by simp
  then have 1: "\<exists>c' c''. push_all [1, 2, 3] (CPU_init []) = Some c' \<and> pop_all 3 c' = Some ([3, 2, 1], c'')"
    by (simp add: numeral_3_eq_3)
  have 2: "\<exists>c'. step ?p = Some (True, c') \<and> sp c' = 256 \<and> reg_B c' = 5 \<and> stack c' = stack (CPU_init [])"
    using stack_discipline [OF p(1), of "[]"] p(2-5) by auto
  have 3: "\<exists>c'. step ?q = Some (True, c') \<and> sp c' = 0 \<and> reg_B c' = 5 \<and> stack c' = stack (CPU_init [])"
    using stack_discipline [OF q(1), of "[]"] q(2-5) by auto
  show ?thesis using 1 2 3 by blast
qed

subsection \<open>Every step returns, and the privilege flag\<close>

lemma syscallHandler_frame:
  "syscallHandler c = Some c' \<Longrightarrow>
   memory c' = memory c \<and> stack c' = stack c \<and> sp c' = sp c \<and> pc c' = pc c"
  by (auto simp: syscallHandler_eq syscall_switch_def split: option.splits if_splits list.splits)

lemma unat_sp_step: "unat (s + 1 :: 16 word) \<le> Suc (unat s)"
  by (simp add: unat_word_ariths)

lemma exec_operand_sizes:
  assumes "i = LOAD_A \<or> i = LOAD_B \<or> i = STORE_A \<or> i = JMP" "exec i c = Some (ok, c')"
  shows "length (memory c') = length (memory c) \<and> stack c' = stack c \<and> sp c' = sp c"
proof -
  consider "i = LOAD_A" | "i = LOAD_B" | "i = STORE_A" | "i = JMP" using assms(1) by blast
  then show ?thesis
  proof cases
    case 1
    then show ?thesis using assms(2) by (auto simp: exec_def fetch_def split: if_splits)
  next
    case 2
    then show ?thesis using assms(2) by (auto simp: exec_def fetch_def split: if_splits)
  next
    case 3
    then show ?thesis using assms(2) by (auto simp: exec_def fetch_def Let_def split: if_splits)
  next
    case 4
    then show ?thesis using assms(2) by (auto simp: exec_def fetch_def Let_def split: if_splits)
  qed
qed

lemma exec_plain_sizes:
  assumes "i \<noteq> LOAD_A" "i \<noteq> LOAD_B" "i \<noteq> STORE_A" "i \<noteq> JMP" "i \<noteq> SYSCALL"
    "exec i c = Some (ok, c')" "unat (sp c) \<le> length (stack c)"
  shows "memory c' = memory c \<and> length (stack c') = length (stack c) \<and>
         unat (sp c') \<le> length (stack c')"
proof -
  note e = exec_plain [OF assms(1-5), of c]
  consider "i = ADD_A_B" | "i = SUB_A_B" | "i = PUSH_B" | "i = POP_B" | "i = HALT"
    | "i \<noteq> ADD_A_B" "i \<noteq> SUB_A_B" "i \<noteq> PUSH_B" "i \<noteq> POP_B" "i \<noteq> HALT"
    by blast
  then show ?thesis
  proof cases
    case 1 then show ?thesis using assms(6,7) e by auto
  next
    case 2 then show ?thesis using assms(6,7) e by auto
  next
    case 3
    show ?thesis
    proof (cases "unat (sp c) < length (stack c)")
      case True
      then have "unat (sp c + 1) \<le> length (stack c)"
        using unat_sp_step [of "sp c"] by simp
      then show ?thesis using 3 True assms(6) e by auto
    next
      case False
      then show ?thesis using 3 assms(6,7) e by auto
    qed
  next
    case 4
    show ?thesis
    proof (cases "0 < sp c")
      case True
      then have "unat (sp c - 1) \<le> length (stack c)"
        using assms(7) by (simp add: unat_sp_pred)
      then show ?thesis using 4 True assms(6) e by (auto split: if_splits)
    next
      case False
      then show ?thesis using 4 assms(6,7) e by auto
    qed
  next
    case 5 then show ?thesis using assms(6,7) e by auto
  next
    case 6 then show ?thesis using assms(6,7) e by auto
  qed
qed

lemma exec_keeps_sizes:
  assumes "exec i c = Some (ok, c')" "unat (sp c) \<le> length (stack c)"
  shows "length (memory c') = length (memory c) \<and> length (stack c') = length (stack c) \<and>
         unat (sp c') \<le> length (stack c')"
proof (cases "i = SYSCALL")
  case True
  then have "syscallHandler (c\<lparr>cout := cout c @ [Trace_SYSCALL]\<rparr>) = Some c'"
    using assms(1) by (simp add: exec_SYSCALL split: option.splits)
  then show ?thesis using syscallHandler_frame assms(2) by fastforce
next
  case False
  show ?thesis
  proof (cases "i = LOAD_A \<or> i = LOAD_B \<or> i = STORE_A \<or> i = JMP")
    case True
    then show ?thesis using assms exec_operand_sizes [of i c ok c'] by simp
  next
    case F: False
    then show ?thesis using assms False exec_plain_sizes [of i c ok c'] by simp
  qed
qed

text \<open>
  The sizes of the two vectors and the bound on the stack pointer hold on the machine as
  constructed and are kept by every step.
\<close>

lemma step_keeps_sizes:
  assumes "sized c" "unat (sp c) \<le> 256" "step c = Some (ok, c')"
  shows "sized c' \<and> unat (sp c') \<le> 256"
proof -
  have len: "length (memory c) = 65536" "length (stack c) = 256"
    using assms(1) by (simp_all add: sized_def)
  have "exec (memory c ! unat (pc c))
          (c\<lparr>pc := pc c + 1, cout := cout c @ [Trace_PC (uint (pc c + 1) - 1)]\<rparr>) = Some (ok, c')"
    using assms(3) pc_in_range [OF assms(1)] by (simp add: step_fetches)
  from exec_keeps_sizes [OF this] show ?thesis
    using assms(2) len by (simp add: sized_def)
qed


lemma fetch_sized: "sized c \<Longrightarrow> fetch c = Some (memory c ! unat (pc c), c\<lparr>pc := pc c + 1\<rparr>)"
  using pc_in_range [of c] by (simp add: fetch_def)

lemma byte_address_in_memory: "unat (ucast (v :: byte) :: 16 word) < 65536"
  using unsigned_less [of "ucast v :: 16 word", where ?'a = nat] by simp

lemma syscall_switch_returns:
  assumes "reg_A c = READ_CHAR \<and> dropWhile isspace_byte (cin c) = [] \<longrightarrow> stale_char c \<noteq> None"
  shows "\<exists>d. syscall_switch c = Some d"
proof (cases "reg_A c = READ_CHAR")
  case True
  show ?thesis
  proof (cases "dropWhile isspace_byte (cin c)")
    case Nil
    then obtain b where b: "stale_char c = Some b" using assms True by auto
    show ?thesis using True by (simp add: syscall_switch_def Nil b)
  next
    case (Cons b rest)
    then show ?thesis using True by (simp add: syscall_switch_def)
  qed
next
  case False
  then show ?thesis by (simp add: syscall_switch_def)
qed

lemma syscallHandler_states_shape:
  assumes "syscallHandler_states c = Some states"
  shows "\<exists>served. syscall_switch (c\<lparr>privileged := True\<rparr>) = Some served \<and>
           states = [c\<lparr>privileged := True\<rparr>, served, served\<lparr>privileged := False\<rparr>]"
  using assms by (auto simp: syscallHandler_states_def Let_def split: option.splits)

text \<open>
  On the machine as it runs, \<^verbatim>\<open>step\<close> always returns, except when a READ_CHAR syscall
  finds no character left on the input and the read of the uninitialised \<^verbatim>\<open>inputChar\<close>
  is taken as undefined.
\<close>

lemma step_returns:
  assumes "sized c" "unat (sp c) \<le> 256"
    "memory c ! unat (pc c) = SYSCALL \<and> reg_A c = READ_CHAR \<and>
       dropWhile isspace_byte (cin c) = [] \<longrightarrow> stale_char c \<noteq> None"
  shows "\<exists>ok c'. step c = Some (ok, c')"
proof -
  let ?i = "memory c ! unat (pc c)"
  let ?c = "c\<lparr>pc := pc c + 1, cout := cout c @ [Trace_PC (uint (pc c + 1) - 1)]\<rparr>"
  have len: "length (memory c) = 65536" "length (stack c) = 256"
    using assms(1) by (simp_all add: sized_def)
  have s: "sized ?c" using assms(1) by (simp add: sized_def)
  have st: "step c = exec ?i ?c"
    using pc_in_range [OF assms(1)] by (rule step_fetches)
  have "\<exists>r. exec ?i ?c = Some r"
  proof (cases "?i = SYSCALL")
    case True
    let ?e = "?c\<lparr>cout := cout ?c @ [Trace_SYSCALL], privileged := True\<rparr>"
    have "reg_A ?e = READ_CHAR \<and> dropWhile isspace_byte (cin ?e) = [] \<longrightarrow> stale_char ?e \<noteq> None"
      using assms(3) True by simp
    from syscall_switch_returns [OF this] obtain d where "syscall_switch ?e = Some d" by blast
    then show ?thesis
      using True by (auto simp: exec_SYSCALL syscallHandler_eq)
  next
    case False
    show ?thesis
    proof (cases "?i = LOAD_A \<or> ?i = LOAD_B \<or> ?i = STORE_A \<or> ?i = JMP")
      case True
      then consider "?i = LOAD_A" | "?i = LOAD_B" | "?i = STORE_A" | "?i = JMP" by blast
      then show ?thesis
      proof cases
        case 1 then show ?thesis by (auto simp: exec_def fetch_sized [OF s])
      next
        case 2 then show ?thesis by (auto simp: exec_def fetch_sized [OF s])
      next
        case 3 then show ?thesis
          using byte_address_in_memory
          by (auto simp: exec_def fetch_sized [OF s] Let_def len)
      next
        case 4 then show ?thesis by (auto simp: exec_def fetch_sized [OF s] Let_def)
      qed
    next
      case F: False
      have pop: "0 < sp c \<Longrightarrow> unat (sp c - 1) < 256"
        using assms(2) sp_pos_unat [of "sp c"] by (simp add: unat_sp_pred)
      show ?thesis
        using False F pop by (auto simp: exec_plain len)
    qed
  qed
  then show ?thesis using st by auto
qed

text \<open>
  Claim C9. The handler passes through three states: on entry the state it was called in
  with the privilege flag set, after its switch a state with the flag still set, and on
  return a state with the flag cleared, which is the state it leaves the machine in; it
  does pass through them unless a READ_CHAR on exhausted input is taken as undefined.
  A \<^verbatim>\<open>step\<close> on \<^verbatim>\<open>SYSCALL\<close> continues and ends in the last of the handler's states, the first of
  which has the flag set. So a \<^verbatim>\<open>step\<close> that starts with the flag clear returns with the
  flag clear, whatever the instruction; and on the machine as it runs \<^verbatim>\<open>step\<close> does return,
  also for a READ_CHAR on exhausted input where the stale character is read.
\<close>

theorem privileged_only_transient:
  "(syscallHandler_states c = Some states \<longrightarrow>
      (\<exists>entered served returned. states = [entered, served, returned] \<and>
         entered = c\<lparr>privileged := True\<rparr> \<and> privileged entered \<and>
         syscall_switch entered = Some served \<and> privileged served \<and>
         \<not> privileged returned \<and> syscallHandler c = Some returned)) \<and>
   ((reg_A c = READ_CHAR \<and> dropWhile isspace_byte (cin c) = [] \<longrightarrow> stale_char c \<noteq> None) \<longrightarrow>
      (\<exists>states. syscallHandler_states c = Some states)) \<and>
   (unat (pc c) < length (memory c) \<and> memory c ! unat (pc c) = SYSCALL \<and>
    step c = Some (ok, c'') \<longrightarrow>
      ok \<and> (\<exists>states. syscallHandler_states
                        (c\<lparr>pc := pc c + 1,
                           cout := cout c @ [Trace_PC (uint (pc c + 1) - 1), Trace_SYSCALL]\<rparr>) =
                      Some states \<and>
                    privileged (hd states) \<and> c'' = last states)) \<and>
   (\<not> privileged c \<and> step c = Some (ok, c'') \<longrightarrow> \<not> privileged c'') \<and>
   (sized c \<and> unat (sp c) \<le> 256 \<and>
    (memory c ! unat (pc c) = SYSCALL \<and> reg_A c = READ_CHAR \<and>
       dropWhile isspace_byte (cin c) = [] \<longrightarrow> stale_char c \<noteq> None) \<longrightarrow>
      (\<exists>r. step c = Some r))"
proof (intro conjI impI)
  assume h: "syscallHandler_states c = Some states"
  from syscallHandler_states_shape [OF h] obtain served where
    sv: "syscall_switch (c\<lparr>privileged := True\<rparr>) = Some served"
      "states = [c\<lparr>privileged := True\<rparr>, served, served\<lparr>privileged := False\<rparr>]"
    by blast
  have "privileged served" using syscall_switch_privileged [OF sv(1)] by simp
  moreover have "syscallHandler c = Some (served\<lparr>privileged := False\<rparr>)"
    using sv(1) by (simp add: syscallHandler_eq)
  ultimately show "\<exists>entered served returned. states = [entered, served, returned] \<and>
         entered = c\<lparr>privileged := True\<rparr> \<and> privileged entered \<and>
         syscall_switch entered = Some served \<and> privileged served \<and>
         \<not> privileged returned \<and> syscallHandler c = Some returned"
    using sv by simp
next
  assume "reg_A c = READ_CHAR \<and> dropWhile isspace_byte (cin c) = [] \<longrightarrow> stale_char c \<noteq> None"
  then have "reg_A (c\<lparr>privileged := True\<rparr>) = READ_CHAR \<and>
      dropWhile isspace_byte (cin (c\<lparr>privileged := True\<rparr>)) = [] \<longrightarrow>
      stale_char (c\<lparr>privileged := True\<rparr>) \<noteq> None"
    by simp
  from syscall_switch_returns [OF this] show "\<exists>states. syscallHandler_states c = Some states"
    by (auto simp: syscallHandler_states_def Let_def)
next
  assume h: "unat (pc c) < length (memory c) \<and> memory c ! unat (pc c) = SYSCALL \<and>
    step c = Some (ok, c'')"
  let ?c = "c\<lparr>pc := pc c + 1,
              cout := cout c @ [Trace_PC (uint (pc c + 1) - 1), Trace_SYSCALL]\<rparr>"
  have "step c = exec SYSCALL (c\<lparr>pc := pc c + 1,
                                   cout := cout c @ [Trace_PC (uint (pc c + 1) - 1)]\<rparr>)"
    using h step_fetches [of c] by simp
  also have "\<dots> = (case syscallHandler ?c of None \<Rightarrow> None | Some c' \<Rightarrow> Some (True, c'))"
    by (simp add: exec_SYSCALL)
  finally have e: "(case syscallHandler ?c of None \<Rightarrow> None | Some c' \<Rightarrow> Some (True, c')) =
      Some (ok, c'')"
    using h by simp
  then obtain r where r: "syscallHandler ?c = Some r" "ok" "c'' = r"
    by (auto split: option.splits)
  then obtain states where st: "syscallHandler_states ?c = Some states" "r = last states"
    by (auto simp: syscallHandler_def split: option.splits)
  from syscallHandler_states_shape [OF st(1)] have "privileged (hd states)" by auto
  then show "\<exists>states. syscallHandler_states ?c = Some states \<and>
                    privileged (hd states) \<and> c'' = last states"
    using r st by blast
  show "ok" by (rule r(2))
next
  assume h: "\<not> privileged c \<and> step c = Some (ok, c'')"
  show "\<not> privileged c''"
  proof (cases "length (memory c) \<le> unat (pc c)")
    case True
    then have "step c = Some (False, c\<lparr>cerr := cerr c @ [PC_out_of_bounds]\<rparr>)"
      by (simp add: step_def)
    then show ?thesis using h by auto
  next
    case False
    then have "exec (memory c ! unat (pc c))
              (c\<lparr>pc := pc c + 1, cout := cout c @ [Trace_PC (uint (pc c + 1) - 1)]\<rparr>) = Some (ok, c'')"
      using h by (simp add: step_fetches)
    moreover have "\<not> privileged (c\<lparr>pc := pc c + 1, cout := cout c @ [Trace_PC (uint (pc c + 1) - 1)]\<rparr>)"
      using h by simp
    ultimately show ?thesis
      using exec_privileged by blast
  qed
next
  assume "sized c \<and> unat (sp c) \<le> 256 \<and>
    (memory c ! unat (pc c) = SYSCALL \<and> reg_A c = READ_CHAR \<and>
       dropWhile isspace_byte (cin c) = [] \<longrightarrow> stale_char c \<noteq> None)"
  then show "\<exists>r. step c = Some r"
    using step_returns [of c] by auto
qed


text \<open>
  The handler on PRINT_CHAR, and a \<^verbatim>\<open>step\<close> on a READ_CHAR syscall whose input holds white
  space only, where the read of \<^verbatim>\<open>inputChar\<close> yields the stale byte 65.
\<close>

theorem privileged_only_transient_witness:
  "\<not> privileged ((CPU_init [])\<lparr>reg_A := PRINT_CHAR, reg_B := 65\<rparr>) \<and>
   (\<exists>entered served returned.
      syscallHandler_states ((CPU_init [])\<lparr>reg_A := PRINT_CHAR, reg_B := 65\<rparr>) =
        Some [entered, served, returned] \<and>
      privileged entered \<and> privileged served \<and> cout served = [Print_char 65] \<and>
      \<not> privileged returned \<and>
      syscallHandler ((CPU_init [])\<lparr>reg_A := PRINT_CHAR, reg_B := 65\<rparr>) = Some returned) \<and>
   (\<exists>c''. step ((CPU_init [9, 32])\<lparr>reg_A := READ_CHAR, stale_char := Some 65,
                   memory := (memory (CPU_init []))[0 := SYSCALL]\<rparr>) = Some (True, c'') \<and>
          reg_B c'' = 65 \<and> cin c'' = [] \<and> \<not> privileged c'')"
proof -
  let ?c = "(CPU_init [])\<lparr>reg_A := PRINT_CHAR, reg_B := 65\<rparr>"
  let ?d = "(CPU_init [9, 32])\<lparr>reg_A := READ_CHAR, stale_char := Some 65,
                   memory := (memory (CPU_init []))[0 := SYSCALL]\<rparr>"
  have np: "\<not> privileged ?c" "\<not> privileged ?d" by (simp_all add: CPU_init_def)
  have "reg_A ?c = READ_CHAR \<and> dropWhile isspace_byte (cin ?c) = [] \<longrightarrow> stale_char ?c \<noteq> None"
    by simp
  then obtain states where st: "syscallHandler_states ?c = Some states"
    using privileged_only_transient [where c = ?c] by blast
  then obtain entered served returned where
    t: "states = [entered, served, returned]" "entered = ?c\<lparr>privileged := True\<rparr>"
      "privileged entered" "syscall_switch entered = Some served" "privileged served"
      "\<not> privileged returned" "syscallHandler ?c = Some returned"
    using privileged_only_transient [where c = ?c and states = states] by blast
  have "cout served = [Print_char 65]"
    using t(2,4) by (auto simp: syscall_switch_def CPU_init_def)
  then have 1: "\<exists>entered served returned.
      syscallHandler_states ?c = Some [entered, served, returned] \<and>
      privileged entered \<and> privileged served \<and> cout served = [Print_char 65] \<and>
      \<not> privileged returned \<and> syscallHandler ?c = Some returned"
    using st t by blast
  have d: "sized ?d" "unat (sp ?d) \<le> 256" "stale_char ?d \<noteq> None"
    by (simp_all add: sized_def CPU_init_def)
  then obtain r where "step ?d = Some r"
    using privileged_only_transient [where c = ?d] by blast
  then obtain ok c'' where r: "step ?d = Some (ok, c'')" by (cases r) auto
  have 2: "\<not> privileged c''"
    using privileged_only_transient [where c = ?d and ok = ok and c'' = c''] np(2) r by blast
  have "step ?d = Some (True, ?d\<lparr>pc := 1, reg_B := 65, cin := [],
                               cout := [Trace_PC 0, Trace_SYSCALL]\<rparr>)"
    by (simp add: step_fetches exec_SYSCALL syscallHandler_eq syscall_switch_def isspace_byte_def
        CPU_init_def)
  then have 3: "ok" "reg_B c'' = 65" "cin c'' = []" using r by auto
  have "step ?d = Some (True, c'')" using r 3(1) by simp
  then have 4: "\<exists>c''. step ?d = Some (True, c'') \<and> reg_B c'' = 65 \<and> cin c'' = [] \<and>
      \<not> privileged c''"
    using 2 3 by blast
  from np(1) 1 4 show ?thesis by (intro conjI)
qed

section \<open>Properties of the assembler\<close>

lemmas asm_eval = assemble_def assemble_result_def pass1_def pass1_line_def pass2_line_def
  tokens_def next_token_def isspace_def opcodeMap_def has_operand_def stoi_def isdigit_def
  decimal_def digit_val_def Let_def

lemmas compile_eval = compile_def compile_line_def strip_semicolon_def string_back_def pop_back_def
  load_operand_def tokens_def next_token_def isspace_def stoi_def isdigit_def
  decimal_def digit_val_def Let_def

text \<open>
  Claim C7. The three lines \<^verbatim>\<open>start: LOAD_A 5\<close>, \<^verbatim>\<open>STORE_A 20\<close>, \<^verbatim>\<open>JMP start\<close> assemble
  to the bytes 03 05 05 14 20 00, and the first pass binds \<^verbatim>\<open>start\<close> to address 0.
\<close>

theorem assemble_round_trip:
  "assemble [''start: LOAD_A 5'', ''STORE_A 20'', ''JMP start''] =
     [0x03, 0x05, 0x05, 0x14, 0x20, 0x00] \<and>
   fst (pass1 [''start: LOAD_A 5'', ''STORE_A 20'', ''JMP start'']) ''start'' = Some 0"
  by (simp add: asm_eval)

subsection \<open>Operands\<close>



















section \<open>Properties of the compiler\<close>

text \<open>The bytes \<^verbatim>\<open>compile\<close> emits for the example program, run on any machine.\<close>

lemma compiled_example_runs:
  assumes "sized c"
  shows "\<exists>c'. run_program [3, 3, 5, 16, 3, 16, 4, 2, 16, 5, 17, 255] c = Some c' \<and>
     memory c' ! 0x10 = 3 \<and> memory c' ! 0x11 = 18"
proof -
  have len: "length (memory c) = 65536" using assms by (simp add: sized_def)
  show ?thesis
    unfolding run_program_def
      load_and_reset_fits [OF assms, of "[3, 3, 5, 16, 3, 16, 4, 2, 16, 5, 17, 255]", simplified]
    apply (subst run_unfold, simp add: step_eval len)
    apply (subst run_unfold, simp add: step_eval len)
    apply (subst run_unfold, simp add: step_eval len)
    apply (subst run_unfold, simp add: step_eval len)
    apply (subst run_unfold, simp add: step_eval len)
    apply (subst run_unfold, simp add: step_eval len)
    apply (subst run_unfold, simp add: step_eval len)
    done
qed

lemma halt_only_runs:
  assumes "sized c"
  shows "run_program [HALT] c =
     Some (c\<lparr>memory := [HALT] @ drop 1 (memory c), pc := 1,
             cout := cout c @ [Trace_PC 0, Trace_HALT]\<rparr>)"
proof -
  have len: "length (memory c) = 65536" using assms by (simp add: sized_def)
  show ?thesis
    unfolding run_program_def load_and_reset_fits [OF assms, of "[HALT]", simplified]
    by (subst run_unfold, simp add: step_eval len)
qed

text \<open>
  Claim C1. The source \<^verbatim>\<open>int a; int b; a = 3; b = a + 2;\<close>, one statement on each line.
  In \<^verbatim>\<open>a = 3;\<close> no operator token follows \<^verbatim>\<open>3;\<close>, and \<^verbatim>\<open>compile\<close> calls \<^verbatim>\<open>back()\<close> on
  the empty string: with a library that traps there, no bytecode comes out. Where the read
  goes through, the bytecode is the same whatever character it yields; it ends in
  \<^verbatim>\<open>HALT\<close>, and run from address 0 it stops with \<open>memory[0x10] = 3\<close> and
  \<open>memory[0x11] = 18\<close>, not 5: for the operand \<^verbatim>\<open>a\<close> the compiler emits \<^verbatim>\<open>LOAD_A 0x10\<close>,
  which loads the address of \<^verbatim>\<open>a\<close> as an immediate, and \<open>0x10 + 2 = 18\<close>.
  With the four statements on a single line, only \<^verbatim>\<open>int a;\<close> is read: the bytecode is
  \<^verbatim>\<open>HALT\<close> alone and both cells stay 0.
\<close>

theorem compiled_assignment_example:
  "(\<forall>empty_back.
       compile empty_back [''int a;'', ''int b;'', ''a = 3;'', ''b = a + 2;''] = Undefined \<or>
       compile empty_back [''int a;'', ''int b;'', ''a = 3;'', ''b = a + 2;''] =
         Ok [LOAD_A, 3, STORE_A, 0x10, LOAD_A, 0x10, LOAD_B, 2, ADD_A_B, STORE_A, 0x11, HALT]) \<and>
   compile None [''int a;'', ''int b;'', ''a = 3;'', ''b = a + 2;''] = Undefined \<and>
   compile (Some (CHR 0x00)) [''int a;'', ''int b;'', ''a = 3;'', ''b = a + 2;''] =
     Ok [LOAD_A, 3, STORE_A, 0x10, LOAD_A, 0x10, LOAD_B, 2, ADD_A_B, STORE_A, 0x11, HALT] \<and>
   (\<exists>c'. run_program [LOAD_A, 3, STORE_A, 0x10, LOAD_A, 0x10, LOAD_B, 2, ADD_A_B, STORE_A, 0x11, HALT]
            (CPU_init []) = Some c' \<and>
         memory c' ! 0x10 = 3 \<and> memory c' ! 0x11 = 18) \<and>
   (\<forall>empty_back. compile empty_back [''int a; int b; a = 3; b = a + 2;''] = Ok [HALT]) \<and>
   (\<exists>c'. run_program [HALT] (CPU_init []) = Some c' \<and>
         memory c' ! 0x10 = 0 \<and> memory c' ! 0x11 = 0)"
proof (intro conjI allI)
  fix empty_back :: "char option"
  show "compile empty_back [''int a;'', ''int b;'', ''a = 3;'', ''b = a + 2;''] = Undefined \<or>
       compile empty_back [''int a;'', ''int b;'', ''a = 3;'', ''b = a + 2;''] =
         Ok [LOAD_A, 3, STORE_A, 0x10, LOAD_A, 0x10, LOAD_B, 2, ADD_A_B, STORE_A, 0x11, HALT]"
    by (cases empty_back) (simp_all add: compile_eval)
  show "compile empty_back [''int a; int b; a = 3; b = a + 2;''] = Ok [HALT]"
    by (simp add: compile_eval)
next
  show "compile None [''int a;'', ''int b;'', ''a = 3;'', ''b = a + 2;''] = Undefined"
    by (simp add: compile_eval)
  show "compile (Some (CHR 0x00)) [''int a;'', ''int b;'', ''a = 3;'', ''b = a + 2;''] =
     Ok [LOAD_A, 3, STORE_A, 0x10, LOAD_A, 0x10, LOAD_B, 2, ADD_A_B, STORE_A, 0x11, HALT]"
    by (simp add: compile_eval)
  show "\<exists>c'. run_program [LOAD_A, 3, STORE_A, 0x10, LOAD_A, 0x10, LOAD_B, 2, ADD_A_B, STORE_A, 0x11, HALT]
            (CPU_init []) = Some c' \<and>
         memory c' ! 0x10 = 3 \<and> memory c' ! 0x11 = 18"
    using compiled_example_runs [OF CPU_init_sized] by simp
  show "\<exists>c'. run_program [HALT] (CPU_init []) = Some c' \<and>
         memory c' ! 0x10 = 0 \<and> memory c' ! 0x11 = 0"
    by (simp add: halt_only_runs [OF CPU_init_sized]) (simp add: CPU_init_def)
qed

text \<open>
  Claim C10. With \<^verbatim>\<open>back()\<close> of an empty string as \<open>None\<close>, \<^verbatim>\<open>compile\<close> does reach that
  case: on \<^verbatim>\<open>a = 3;\<close>, whose operator token is empty (the first test of the condition
  guards against it, the statement inside does not), on \<^verbatim>\<open>int\<close> without a name, and on
  an arithmetic assignment without a second operand.
\<close>

theorem empty_token_back_is_read:
  "tokens ''a = 3;'' = [''a'', ''='', ''3;''] \<and>
   string_back None (fst (next_token [] (drop 3 (tokens ''a = 3;'')))) = None \<and>
   compile None [''int a;'', ''a = 3;''] = Undefined \<and>
   compile None [''int''] = Undefined \<and>
   compile None [''int a;'', ''a = 1 +''] = Undefined"
  by (simp add: compile_eval)

end
